theory Spec2Isabelle
  imports Main
begin

section \<open>JavaScript strings\<close>

text \<open>
  A JavaScript string is a sequence of UTF-16 code units. A code unit is modelled as a
  natural number; the strings of the program are the lists whose elements are below
  65536. \<open>str\<close> turns an ASCII literal into such a list.
\<close>

type_synonym code_unit = nat
type_synonym jsstring = "code_unit list"

definition str :: "string \<Rightarrow> jsstring" where
  "str s = map of_char s"

section \<open>VoiceRecorder: negotiation of the recording format\<close>

text \<open>
  \<^verbatim>\<open>
  const getSupportedMimeType = () => {
    const types = ['audio/webm;codecs=opus', 'audio/webm', 'audio/mp4', 'audio/wav'];
    for (const type of types) {
      if (MediaRecorder.isTypeSupported(type)) { return type; }
    }
    return 'audio/webm'; // fallback
  };
  \<close>
  \<open>MediaRecorder.isTypeSupported\<close> is the platform's capability table; it is a parameter.
\<close>

definition types :: "jsstring list" where
  "types = [str ''audio/webm;codecs=opus'', str ''audio/webm'', str ''audio/mp4'',
            str ''audio/wav'']"

fun firstSupported :: "(jsstring \<Rightarrow> bool) \<Rightarrow> jsstring list \<Rightarrow> jsstring option" where
  "firstSupported isTypeSupported [] = None"
| "firstSupported isTypeSupported (t # ts) =
     (if isTypeSupported t then Some t else firstSupported isTypeSupported ts)"

definition getSupportedMimeType :: "(jsstring \<Rightarrow> bool) \<Rightarrow> jsstring" where
  "getSupportedMimeType isTypeSupported =
     (case firstSupported isTypeSupported types of
        Some t \<Rightarrow> t
      | None \<Rightarrow> str ''audio/webm'')"

section \<open>The platform: JSON text\<close>

text \<open>
  \<^verbatim>\<open>String.prototype.trim\<close> removes the white space and line terminator code units
  of ECMAScript from both ends of a string.
\<close>

definition isWhiteSpace :: "code_unit \<Rightarrow> bool" where
  "isWhiteSpace c \<longleftrightarrow>
     c \<in> {9, 10, 11, 12, 13, 32, 160, 5760, 8232, 8233, 8239, 8287, 12288, 65279}
     \<or> (8192 \<le> c \<and> c \<le> 8202)"

definition trim :: "jsstring \<Rightarrow> jsstring" where
  "trim s = rev (dropWhile isWhiteSpace (rev (dropWhile isWhiteSpace s)))"

text \<open>
  \<^verbatim>\<open>s.split(',')\<close> with a separator of one code unit, and reading an index of the
  resulting array (\<open>None\<close> is \<^verbatim>\<open>undefined\<close>).
\<close>

fun split :: "code_unit \<Rightarrow> jsstring \<Rightarrow> jsstring list" where
  "split sep [] = [] # []"
| "split sep (c # cs) =
     (if c = sep then [] # split sep cs
      else (case split sep cs of
              [] \<Rightarrow> [c] # []
            | p # ps \<Rightarrow> (c # p) # ps))"

fun at_index :: "'a list \<Rightarrow> nat \<Rightarrow> 'a option" where
  "at_index [] i = None"
| "at_index (x # xs) 0 = Some x"
| "at_index (x # xs) (Suc i) = at_index xs i"

text \<open>
  The values \<^verbatim>\<open>JSON.parse\<close> returns. A number is kept as the text that denotes it:
  the program never computes with one. An object is the list of its members in the order
  of the text; reading a property takes the last member with that name, as the later of
  two members with one name overwrites the earlier.
\<close>

datatype json =
    JNull
  | JBool bool
  | JNumber jsstring
  | JString jsstring
  | JArray "json list"
  | JObject "(jsstring \<times> json) list"

datatype error = SyntaxError | TypeError

fun lookup_last :: "(jsstring \<times> json) list \<Rightarrow> jsstring \<Rightarrow> json option" where
  "lookup_last [] k = None"
| "lookup_last ((k', v) # ms) k =
     (case lookup_last ms k of
        Some w \<Rightarrow> Some w
      | None \<Rightarrow> (if k' = k then Some v else None))"

text \<open>
  \<^verbatim>\<open>message.name\<close> for one of the names the program reads (\<open>type\<close>,
  \<open>response_text\<close>, \<open>detected_language\<close>, \<open>audio_response\<close>, \<open>tts_engine\<close>,
  \<open>message\<close>): none of them is a property of a prototype, so the value is the object's
  own member or \<^verbatim>\<open>undefined\<close> (\<open>None\<close>); reading a property of \<^verbatim>\<open>null\<close> throws
  a TypeError.
\<close>

fun get_property :: "json \<Rightarrow> jsstring \<Rightarrow> error + json option" where
  "get_property JNull k = Inl TypeError"
| "get_property (JObject ms) k = Inr (lookup_last ms k)"
| "get_property v k = Inr None"

subsection \<open>JSON.stringify\<close>

definition hexDigit :: "nat \<Rightarrow> code_unit" where
  "hexDigit d = (if d < 10 then 48 + d else 87 + d)"

definition unicodeEscape :: "code_unit \<Rightarrow> jsstring" where
  "unicodeEscape c =
     [92, 117, hexDigit (c div 4096 mod 16), hexDigit (c div 256 mod 16),
      hexDigit (c div 16 mod 16), hexDigit (c mod 16)]"

definition isLeadingSurrogate :: "code_unit \<Rightarrow> bool" where
  "isLeadingSurrogate c \<longleftrightarrow> 55296 \<le> c \<and> c \<le> 56319"

definition isTrailingSurrogate :: "code_unit \<Rightarrow> bool" where
  "isTrailingSurrogate c \<longleftrightarrow> 56320 \<le> c \<and> c \<le> 57343"

text \<open>
  QuoteJSONString on one code point that is a single code unit: the short escapes, the
  \<open>\u\<close> escape for the other control characters and for a surrogate that stands alone,
  the code unit itself otherwise.
\<close>

definition quoteUnit :: "code_unit \<Rightarrow> jsstring" where
  "quoteUnit c =
     (if c = 8 then [92, 98]
      else if c = 9 then [92, 116]
      else if c = 10 then [92, 110]
      else if c = 12 then [92, 102]
      else if c = 13 then [92, 114]
      else if c = 34 then [92, 34]
      else if c = 92 then [92, 92]
      else if c < 32 \<or> isLeadingSurrogate c \<or> isTrailingSurrogate c then unicodeEscape c
      else [c])"

fun quoteChars :: "jsstring \<Rightarrow> jsstring" where
  "quoteChars [] = []"
| "quoteChars [c] = quoteUnit c"
| "quoteChars (c # d # cs) =
     (if isLeadingSurrogate c \<and> isTrailingSurrogate d then c # d # quoteChars cs
      else quoteUnit c @ quoteChars (d # cs))"

definition quoteJSONString :: "jsstring \<Rightarrow> jsstring" where
  "quoteJSONString s = [34] @ quoteChars s @ [34]"

text \<open>
  \<^verbatim>\<open>JSON.stringify\<close> on an object literal whose property values are strings or
  \<^verbatim>\<open>undefined\<close> (\<open>None\<close>), which is all the program passes to it: a property whose
  value is \<^verbatim>\<open>undefined\<close> is left out.
\<close>

fun stringifyMembers :: "(jsstring \<times> jsstring option) list \<Rightarrow> jsstring list" where
  "stringifyMembers [] = []"
| "stringifyMembers ((k, None) # ms) = stringifyMembers ms"
| "stringifyMembers ((k, Some v) # ms) =
     (quoteJSONString k @ [58] @ quoteJSONString v) # stringifyMembers ms"

fun join :: "jsstring \<Rightarrow> jsstring list \<Rightarrow> jsstring" where
  "join sep [] = []"
| "join sep [x] = x"
| "join sep (x # y # ys) = x @ sep @ join sep (y # ys)"

definition JSON_stringify :: "(jsstring \<times> jsstring option) list \<Rightarrow> jsstring" where
  "JSON_stringify ms = [123] @ join [44] (stringifyMembers ms) @ [125]"


subsection \<open>JSON.parse\<close>

text \<open>
  A recursive descent parser for the JSON grammar. The functions for values, array
  elements and object members call each other on the rest of the text; they recurse on a
  bound that \<open>JSON_parse\<close> sets above the length of the text, and
  \<open>OutOfFuel\<close> is the result of a bound that was too small.
\<close>

datatype 'a presult = OutOfFuel | Failed | Parsed 'a jsstring

fun pmap :: "('a \<Rightarrow> 'b) \<Rightarrow> 'a presult \<Rightarrow> 'b presult" where
  "pmap f OutOfFuel = OutOfFuel"
| "pmap f Failed = Failed"
| "pmap f (Parsed v rest) = Parsed (f v) rest"

definition isJSONWhiteSpace :: "code_unit \<Rightarrow> bool" where
  "isJSONWhiteSpace c \<longleftrightarrow> c = 9 \<or> c = 10 \<or> c = 13 \<or> c = 32"

definition skip_ws :: "jsstring \<Rightarrow> jsstring" where
  "skip_ws cs = dropWhile isJSONWhiteSpace cs"

definition isDigit :: "code_unit \<Rightarrow> bool" where
  "isDigit c \<longleftrightarrow> 48 \<le> c \<and> c \<le> 57"

definition hexValue :: "code_unit \<Rightarrow> nat option" where
  "hexValue c =
     (if 48 \<le> c \<and> c \<le> 57 then Some (c - 48)
      else if 97 \<le> c \<and> c \<le> 102 then Some (c - 87)
      else if 65 \<le> c \<and> c \<le> 70 then Some (c - 55)
      else None)"

definition hex4 :: "code_unit \<Rightarrow> code_unit \<Rightarrow> code_unit \<Rightarrow> code_unit \<Rightarrow> code_unit option" where
  "hex4 a b c d =
     (case (hexValue a, hexValue b, hexValue c, hexValue d) of
        (Some w, Some x, Some y, Some z) \<Rightarrow> Some (w * 4096 + x * 256 + y * 16 + z)
      | _ \<Rightarrow> None)"

definition unescape :: "code_unit \<Rightarrow> code_unit option" where
  "unescape e =
     (if e = 34 then Some 34
      else if e = 92 then Some 92
      else if e = 47 then Some 47
      else if e = 98 then Some 8
      else if e = 102 then Some 12
      else if e = 110 then Some 10
      else if e = 114 then Some 13
      else if e = 116 then Some 9
      else None)"

text \<open>The characters of a string, after its opening quote, up to the closing one.\<close>

fun parse_chars :: "jsstring \<Rightarrow> jsstring presult" where
  "parse_chars [] = Failed"
| "parse_chars (c # cs) =
     (if c = 34 then Parsed [] cs
      else if c = 92 then
        (case cs of
           [] \<Rightarrow> Failed
         | e # es \<Rightarrow>
             if e = 117 then
               (case es of
                  h1 # h2 # h3 # h4 # r \<Rightarrow>
                    (case hex4 h1 h2 h3 h4 of
                       None \<Rightarrow> Failed
                     | Some u \<Rightarrow> pmap ((#) u) (parse_chars r))
                | _ \<Rightarrow> Failed)
             else
               (case unescape e of
                  None \<Rightarrow> Failed
                | Some u \<Rightarrow> pmap ((#) u) (parse_chars es)))
      else if c < 32 then Failed
      else pmap ((#) c) (parse_chars cs))"

text \<open>
  A number: an optional minus, an integer part without a leading zero, an optional
  fraction, an optional exponent. The result is the text of the number.
\<close>

definition parse_digits :: "jsstring \<Rightarrow> jsstring presult" where
  "parse_digits cs =
     (case takeWhile isDigit cs of
        [] \<Rightarrow> Failed
      | d # ds \<Rightarrow> Parsed (d # ds) (dropWhile isDigit cs))"

definition parse_int_part :: "jsstring \<Rightarrow> jsstring presult" where
  "parse_int_part cs =
     (case cs of
        [] \<Rightarrow> Failed
      | c # r \<Rightarrow> if c = 48 then Parsed [48] r else parse_digits cs)"

definition parse_fraction :: "jsstring \<Rightarrow> jsstring presult" where
  "parse_fraction cs =
     (case cs of
        [] \<Rightarrow> Parsed [] cs
      | c # r \<Rightarrow> if c = 46 then pmap ((#) 46) (parse_digits r) else Parsed [] cs)"

definition parse_exponent :: "jsstring \<Rightarrow> jsstring presult" where
  "parse_exponent cs =
     (case cs of
        [] \<Rightarrow> Parsed [] cs
      | c # r \<Rightarrow>
          if c = 101 \<or> c = 69 then
            (case r of
               [] \<Rightarrow> Failed
             | g # r' \<Rightarrow>
                 if g = 43 \<or> g = 45 then pmap (\<lambda>ds. c # g # ds) (parse_digits r')
                 else pmap ((#) c) (parse_digits r))
          else Parsed [] cs)"

definition parse_unsigned :: "jsstring \<Rightarrow> jsstring presult" where
  "parse_unsigned cs =
     (case parse_int_part cs of
        Parsed i r1 \<Rightarrow>
          (case parse_fraction r1 of
             Parsed f r2 \<Rightarrow> pmap (\<lambda>e. i @ f @ e) (parse_exponent r2)
           | other \<Rightarrow> other)
      | other \<Rightarrow> other)"

definition parse_number :: "jsstring \<Rightarrow> jsstring presult" where
  "parse_number cs =
     (case cs of
        [] \<Rightarrow> Failed
      | c # r \<Rightarrow> if c = 45 then pmap ((#) 45) (parse_unsigned r) else parse_unsigned cs)"

definition parse_literal :: "jsstring \<Rightarrow> json \<Rightarrow> jsstring \<Rightarrow> json presult" where
  "parse_literal word v cs =
     (if take (length word) cs = word then Parsed v (drop (length word) cs) else Failed)"

fun parse_value :: "nat \<Rightarrow> jsstring \<Rightarrow> json presult"
  and parse_elements :: "nat \<Rightarrow> jsstring \<Rightarrow> json list presult"
  and parse_members :: "nat \<Rightarrow> jsstring \<Rightarrow> (jsstring \<times> json) list presult" where
  "parse_value 0 cs = OutOfFuel"
| "parse_value (Suc n) cs =
     (case cs of
        [] \<Rightarrow> Failed
      | c # r \<Rightarrow>
          if c = 123 then
            (case skip_ws r of
               [] \<Rightarrow> Failed
             | c' # r' \<Rightarrow>
                 if c' = 125 then Parsed (JObject []) r'
                 else pmap JObject (parse_members n (c' # r')))
          else if c = 91 then
            (case skip_ws r of
               [] \<Rightarrow> Failed
             | c' # r' \<Rightarrow>
                 if c' = 93 then Parsed (JArray []) r'
                 else pmap JArray (parse_elements n (c' # r')))
          else if c = 34 then pmap JString (parse_chars r)
          else if c = 45 \<or> isDigit c then pmap JNumber (parse_number cs)
          else if c = 116 then parse_literal (str ''true'') (JBool True) cs
          else if c = 102 then parse_literal (str ''false'') (JBool False) cs
          else if c = 110 then parse_literal (str ''null'') JNull cs
          else Failed)"
| "parse_elements 0 cs = OutOfFuel"
| "parse_elements (Suc n) cs =
     (case parse_value n (skip_ws cs) of
        Parsed v rest \<Rightarrow>
          (case skip_ws rest of
             [] \<Rightarrow> Failed
           | c # r \<Rightarrow>
               if c = 44 then pmap ((#) v) (parse_elements n r)
               else if c = 93 then Parsed [v] r
               else Failed)
      | OutOfFuel \<Rightarrow> OutOfFuel
      | Failed \<Rightarrow> Failed)"
| "parse_members 0 cs = OutOfFuel"
| "parse_members (Suc n) cs =
     (case skip_ws cs of
        [] \<Rightarrow> Failed
      | q # r \<Rightarrow>
          if q = 34 then
            (case parse_chars r of
               Parsed k rest \<Rightarrow>
                 (case skip_ws rest of
                    [] \<Rightarrow> Failed
                  | colon # r2 \<Rightarrow>
                      if colon = 58 then
                        (case parse_value n (skip_ws r2) of
                           Parsed v rest2 \<Rightarrow>
                             (case skip_ws rest2 of
                                [] \<Rightarrow> Failed
                              | c # r3 \<Rightarrow>
                                  if c = 44 then pmap ((#) (k, v)) (parse_members n r3)
                                  else if c = 125 then Parsed [(k, v)] r3
                                  else Failed)
                         | OutOfFuel \<Rightarrow> OutOfFuel
                         | Failed \<Rightarrow> Failed)
                      else Failed)
             | OutOfFuel \<Rightarrow> OutOfFuel
             | Failed \<Rightarrow> Failed)
          else Failed)"

text \<open>
  \<^verbatim>\<open>JSON.parse(text)\<close>: one value between optional white space; anything else throws
  a SyntaxError. The bound is above twice the length of the text, and never runs out
  (\<open>JSON_parse_fuel\<close> below), so the first case is never taken.
\<close>

definition JSON_parse :: "jsstring \<Rightarrow> error + json" where
  "JSON_parse text =
     (case parse_value (Suc (2 * length text)) (skip_ws text) of
        OutOfFuel \<Rightarrow> Inl SyntaxError
      | Failed \<Rightarrow> Inl SyntaxError
      | Parsed v rest \<Rightarrow> (if skip_ws rest = [] then Inr v else Inl SyntaxError))"

section \<open>The platform: Blob, FileReader, WebSocket\<close>

text \<open>
  A Blob is its bytes (numbers below 256) and its type. \<^verbatim>\<open>readAsDataURL\<close> gives the
  text \<^verbatim>\<open>data:<type>;base64,<base64 of the bytes>\<close>.
\<close>

record blob =
  b_bytes :: "nat list"
  b_type :: jsstring

definition base64Alphabet :: jsstring where
  "base64Alphabet = str ''ABCDEFGHIJKLMNOPQRSTUVWXYZabcdefghijklmnopqrstuvwxyz0123456789+/''"

definition base64Digit :: "nat \<Rightarrow> code_unit" where
  "base64Digit i = base64Alphabet ! (i mod 64)"

fun base64 :: "nat list \<Rightarrow> jsstring" where
  "base64 [] = []"
| "base64 [a] = [base64Digit (a div 4), base64Digit (a mod 4 * 16), 61, 61]"
| "base64 [a, b] =
     [base64Digit (a div 4), base64Digit (a mod 4 * 16 + b div 16),
      base64Digit (b mod 16 * 4), 61]"
| "base64 (a # b # c # r) =
     [base64Digit (a div 4), base64Digit (a mod 4 * 16 + b div 16),
      base64Digit (b mod 16 * 4 + c div 64), base64Digit (c mod 64)] @ base64 r"

definition dataURL :: "blob \<Rightarrow> jsstring" where
  "dataURL b = str ''data:'' @ b_type b @ str '';base64,'' @ base64 (b_bytes b)"

datatype readyState = CONNECTING | OPEN | CLOSING | CLOSED

section \<open>The page component (HinglishChatbot)\<close>

text \<open>
  A message of the transcript is an object tagged \<open>user\<close>, \<open>ai\<close> or \<open>error\<close>.
  The number is the clock reading that gives \<open>id\<close> and \<open>timestamp\<close>. The fields of
  an \<open>ai\<close> message (text, language, audioBase64, ttsEngine) are read from the parsed
  server message and may be \<^verbatim>\<open>undefined\<close> (\<open>None\<close>); the text of an \<open>error\<close>
  message is \<^verbatim>\<open>`Error: ${message.message}`\<close>, kept as the value that is interpolated.
\<close>

datatype message =
    UserMessage nat jsstring jsstring
  | AiMessage nat "json option" "json option" "json option" "json option"
  | ErrorMessage nat "json option"

datatype connectionStatus = disconnected | connecting | connected

text \<open>
  The component has been rendered; then its effect has run (mounted); then it has been
  unmounted, and from then on its state setters do nothing.
\<close>

datatype lifecycle = Rendered | Mounted | Unmounted

text \<open>
  The state of the component: its React state, the socket reference, and the platform
  objects it drives. \<open>sockets\<close> holds the ready state of every WebSocket constructed so
  far and \<open>socketRef\<close> the index of the current one; \<open>wire\<close> is every frame passed
  to \<^verbatim>\<open>send\<close>; \<open>timers\<close> the delays of the pending
  \<^verbatim>\<open>setTimeout(connectWebSocket, ...)\<close>; \<open>readers\<close> the FileReaders still
  reading, each with the language and conversation mode its callback closed over;
  \<open>wsUrlValid\<close> tells whether \<^verbatim>\<open>new WebSocket(wsUrl)\<close> returns (rather than
  throws) for the configured URL; \<open>lifecycle\<close> is where the component is in its
  life. Audio playback has no effect on this state and is left out.
\<close>

record page =
  messages :: "message list"
  inputText :: jsstring
  isProcessing :: bool
  currentLanguage :: jsstring
  connectionStatus :: connectionStatus
  conversationMode :: jsstring
  socketRef :: "nat option"
  sockets :: "readyState list"
  wire :: "jsstring list"
  timers :: "nat list"
  readers :: "(blob \<times> jsstring \<times> jsstring) list"
  wsUrlValid :: bool
  lifecycle :: lifecycle

definition initial :: "bool \<Rightarrow> page" where
  "initial valid =
     \<lparr> messages = [], inputText = [], isProcessing = False,
       currentLanguage = str ''hinglish'', connectionStatus = disconnected,
       conversationMode = str ''guidance_counselor'', socketRef = None, sockets = [],
       wire = [], timers = [], readers = [], wsUrlValid = valid, lifecycle = Rendered \<rparr>"

text \<open>
  \<^verbatim>\<open>
  const connectWebSocket = () => {
    setConnectionStatus('connecting');
    try {
      socketRef.current = new WebSocket(wsUrl);
      socketRef.current.onopen = () => { setConnectionStatus('connected'); };
      socketRef.current.onclose = () => {
        setConnectionStatus('disconnected');
        setTimeout(connectWebSocket, 3000);
      };
      socketRef.current.onerror = (error) => { setConnectionStatus('disconnected'); };
      socketRef.current.onmessage = (event) => { handleSocketMessage(event.data); };
    } catch (error) {
      setConnectionStatus('disconnected');
      setTimeout(connectWebSocket, 3000);
    }
  };
  connectWebSocket();
  return () => { if (socketRef.current) { socketRef.current.close(); } };
  \<close>
\<close>

definition connectWebSocket :: "page \<Rightarrow> page" where
  "connectWebSocket s =
     (let s1 = s\<lparr>connectionStatus := connecting\<rparr> in
      if wsUrlValid s1 then
        s1\<lparr>socketRef := Some (length (sockets s1)), sockets := sockets s1 @ [CONNECTING]\<rparr>
      else s1\<lparr>connectionStatus := disconnected, timers := timers s1 @ [3000]\<rparr>)"

definition onopen :: "page \<Rightarrow> page" where
  "onopen s = s\<lparr>connectionStatus := connected\<rparr>"

definition onclose :: "page \<Rightarrow> page" where
  "onclose s = s\<lparr>connectionStatus := disconnected, timers := timers s @ [3000]\<rparr>"

definition onerror :: "page \<Rightarrow> page" where
  "onerror s = s\<lparr>connectionStatus := disconnected\<rparr>"

text \<open>
  \<^verbatim>\<open>socket.close()\<close> of the platform: a socket that is connecting or open starts
  closing; its close event comes later. The cleanup of the effect calls it on the
  current socket.
\<close>

definition close :: "nat \<Rightarrow> page \<Rightarrow> page" where
  "close i s =
     (if i < length (sockets s) \<and> (sockets s ! i = CONNECTING \<or> sockets s ! i = OPEN)
      then s\<lparr>sockets := (sockets s)[i := CLOSING]\<rparr>
      else s)"

definition cleanup :: "page \<Rightarrow> page" where
  "cleanup s = (case socketRef s of None \<Rightarrow> s | Some i \<Rightarrow> close i s)"

text \<open>
  \<^verbatim>\<open>
  const handleSocketMessage = useCallback((data) => {
    const message = JSON.parse(data);
    if (message.type === 'audio_response' || message.type === 'text_response') {
      const newMessage = { id: Date.now(), type: 'ai', text: message.response_text,
        language: message.detected_language, audioBase64: message.audio_response,
        ttsEngine: message.tts_engine, timestamp: new Date() };
      setMessages(prev => [...prev, newMessage]);
      if (audioEnabled && message.audio_response) { playAudioResponse(message.audio_response); }
    } else if (message.type === 'error') {
      const errorMessage = { id: Date.now(), type: 'error',
        text: `Error: ${message.message}`, timestamp: new Date() };
      setMessages(prev => [...prev, errorMessage]);
    }
    setIsProcessing(false);
  }, [audioEnabled]);
  \<close>
  An exception (\<open>Inl\<close>) leaves the function before any state is set.
\<close>

definition property :: "json \<Rightarrow> string \<Rightarrow> json option" where
  "property message name =
     (case get_property message (str name) of Inl e \<Rightarrow> None | Inr v \<Rightarrow> v)"

definition handleSocketMessage :: "nat \<Rightarrow> page \<Rightarrow> jsstring \<Rightarrow> error + page" where
  "handleSocketMessage now s data =
     (case JSON_parse data of
        Inl e \<Rightarrow> Inl e
      | Inr message \<Rightarrow>
          (case get_property message (str ''type'') of
             Inl e \<Rightarrow> Inl e
           | Inr ty \<Rightarrow>
               if ty = Some (JString (str ''audio_response''))
                  \<or> ty = Some (JString (str ''text_response''))
               then
                 Inr (s\<lparr>messages := messages s @
                         [AiMessage now (property message ''response_text'')
                            (property message ''detected_language'')
                            (property message ''audio_response'')
                            (property message ''tts_engine'')],
                       isProcessing := False\<rparr>)
               else if ty = Some (JString (str ''error''))
               then
                 Inr (s\<lparr>messages := messages s @
                         [ErrorMessage now (property message ''message'')],
                       isProcessing := False\<rparr>)
               else Inr (s\<lparr>isProcessing := False\<rparr>)))"

text \<open>
  \<^verbatim>\<open>socketRef.current && socketRef.current.readyState === WebSocket.OPEN\<close>, and
  \<^verbatim>\<open>socketRef.current.send(data)\<close>.
\<close>

definition socketOpen :: "page \<Rightarrow> bool" where
  "socketOpen s \<longleftrightarrow>
     (case socketRef s of
        None \<Rightarrow> False
      | Some i \<Rightarrow> i < length (sockets s) \<and> sockets s ! i = OPEN)"

definition send :: "jsstring \<Rightarrow> page \<Rightarrow> page" where
  "send data s = s\<lparr>wire := wire s @ [data]\<rparr>"

text \<open>
  \<^verbatim>\<open>
  const sendTextMessage = useCallback((text) => {
    if (!text.trim() || !socketRef.current) return;
    const userMessage = { id: Date.now(), type: 'user', text: text,
      language: currentLanguage, timestamp: new Date() };
    setMessages(prev => [...prev, userMessage]);
    setInputText('');
    setIsProcessing(true);
    if (socketRef.current && socketRef.current.readyState === WebSocket.OPEN) {
      socketRef.current.send(JSON.stringify({ type: 'text', data: text,
        language: currentLanguage, conversationMode: conversationMode }));
    }
  }, [currentLanguage, conversationMode]);
  \<close>
\<close>

definition textEnvelope :: "jsstring \<Rightarrow> jsstring \<Rightarrow> jsstring \<Rightarrow> (jsstring \<times> jsstring option) list" where
  "textEnvelope t l m =
     [(str ''type'', Some (str ''text'')), (str ''data'', Some t),
      (str ''language'', Some l), (str ''conversationMode'', Some m)]"

definition sendTextMessage :: "nat \<Rightarrow> page \<Rightarrow> jsstring \<Rightarrow> page" where
  "sendTextMessage now s text =
     (if trim text = [] \<or> socketRef s = None then s
      else
        let s1 = s\<lparr>messages := messages s @ [UserMessage now text (currentLanguage s)],
                   inputText := [], isProcessing := True\<rparr>
        in if socketOpen s1
           then send (JSON_stringify
                        (textEnvelope text (currentLanguage s) (conversationMode s))) s1
           else s1)"

text \<open>
  \<^verbatim>\<open>
  const sendAudioMessage = useCallback((audioBlob) => {
    if (!audioBlob || !socketRef.current) return;
    setIsProcessing(true);
    const reader = new FileReader();
    reader.onloadend = () => {
      const base64Audio = reader.result.split(',')[1]; // Remove data URL prefix
      if (socketRef.current && socketRef.current.readyState === WebSocket.OPEN) {
        socketRef.current.send(JSON.stringify({ type: 'audio', data: base64Audio,
          language: currentLanguage, conversationMode: conversationMode }));
      }
    };
    reader.readAsDataURL(audioBlob);
  }, [currentLanguage, conversationMode]);
  \<close>
  \<open>sendAudioMessage l m\<close> is the callback of a render in which
  \<open>currentLanguage\<close> was \<open>l\<close> and \<open>conversationMode\<close> was \<open>m\<close>
  (the dependencies of \<^verbatim>\<open>useCallback\<close>): the recorder calls the one it was given when
  the recording started. The callback of the reader runs later, when the read has
  ended; \<open>reader.result\<close> is the data URL, or \<^verbatim>\<open>null\<close> (\<open>None\<close>) when the
  read failed, and then \<^verbatim>\<open>split\<close> throws.
\<close>

definition audioEnvelope :: "jsstring option \<Rightarrow> jsstring \<Rightarrow> jsstring \<Rightarrow> (jsstring \<times> jsstring option) list" where
  "audioEnvelope d l m =
     [(str ''type'', Some (str ''audio'')), (str ''data'', d),
      (str ''language'', Some l), (str ''conversationMode'', Some m)]"

definition sendAudioMessage :: "jsstring \<Rightarrow> jsstring \<Rightarrow> page \<Rightarrow> blob option \<Rightarrow> page" where
  "sendAudioMessage l m s audioBlob =
     (case audioBlob of
        None \<Rightarrow> s
      | Some b \<Rightarrow>
          if socketRef s = None then s
          else s\<lparr>isProcessing := True, readers := readers s @ [(b, l, m)]\<rparr>)"

definition onloadend :: "page \<Rightarrow> jsstring \<Rightarrow> jsstring \<Rightarrow> jsstring option \<Rightarrow> error + page" where
  "onloadend s l m result =
     (case result of
        None \<Rightarrow> Inl TypeError
      | Some url \<Rightarrow>
          let base64Audio = at_index (split 44 url) 1
          in if socketOpen s
             then Inr (send (JSON_stringify (audioEnvelope base64Audio l m)) s)
             else Inr s)"

text \<open>
  \<^verbatim>\<open>
  const handleSubmit = (e) => { e.preventDefault(); sendTextMessage(inputText); };
  const handleRecordingComplete = (audioBlob) => { sendAudioMessage(audioBlob); };
  const toggleLanguage = () => {
    const languages = ['hinglish', 'hi', 'en'];
    const currentIndex = languages.indexOf(currentLanguage);
    const nextIndex = (currentIndex + 1) % languages.length;
    setCurrentLanguage(languages[nextIndex]);
  };
  \<close>
\<close>

definition handleSubmit :: "nat \<Rightarrow> page \<Rightarrow> page" where
  "handleSubmit now s = sendTextMessage now s (inputText s)"

definition handleRecordingComplete :: "jsstring \<Rightarrow> jsstring \<Rightarrow> page \<Rightarrow> blob \<Rightarrow> page" where
  "handleRecordingComplete l m s audioBlob = sendAudioMessage l m s (Some audioBlob)"

definition toggleLanguage :: "page \<Rightarrow> page" where
  "toggleLanguage s =
     s\<lparr>currentLanguage :=
         (if currentLanguage s = str ''hinglish'' then str ''hi''
          else if currentLanguage s = str ''hi'' then str ''en''
          else str ''hinglish'')\<rparr>"

subsection \<open>The events the component receives\<close>

text \<open>
  The platform and the user drive the component through events. \<open>Mount\<close> is the run
  of the effect, once, after the first render; \<open>Unmount\<close> is its cleanup. A socket
  event names the socket it comes from; the platform sets that socket's ready state
  before the handler runs. An exception thrown by a handler is reported by the platform
  and the state stays as the handler left it.

  The form \<^verbatim>\<open><form onSubmit={handleSubmit}>\<close> holds the text area, the recorder and
  the send button. The text area and the recorder's button are rendered with
  \<^verbatim>\<open>disabled={isProcessing}\<close>, the send button with
  \<^verbatim>\<open>disabled={!inputText.trim() || isProcessing}\<close>: while they are disabled their
  events do not occur. The recorder's button has no \<^verbatim>\<open>type\<close>, so in the form it is
  a submit button: a click on it runs its own handler in the recorder (start, stop or
  the permission request) and then submits the form, which is \<open>handleSubmit\<close>.
  \<open>RecorderStopped b l m\<close> is the recorder's stop event handing the clip \<open>b\<close> to
  the \<open>handleRecordingComplete\<close> of the render in which the recording was started,
  where the language was \<open>l\<close> and the conversation mode \<open>m\<close>; nothing disables it.

  After the unmount there are no user events, and the state setters called by a handler
  do nothing: the refs and the platform objects change, the React state stays
  (\<open>setState\<close>).
\<close>

datatype event =
    Mount
  | Unmount
  | SocketOpened nat
  | SocketClosed nat
  | SocketError nat
  | SocketMessage nat jsstring
  | TimerFired
  | SetInputText jsstring
  | EnterKey
  | SendButton
  | ToggleLanguage
  | SetConversationMode jsstring
  | RecorderButton
  | RecorderStopped blob jsstring jsstring
  | LoadEnd bool

definition catch :: "page \<Rightarrow> error + page \<Rightarrow> page" where
  "catch s r = (case r of Inl e \<Rightarrow> s | Inr s' \<Rightarrow> s')"

definition setState :: "page \<Rightarrow> page \<Rightarrow> page" where
  "setState s s' =
     (if lifecycle s = Unmounted
      then s'\<lparr>messages := messages s, inputText := inputText s,
              isProcessing := isProcessing s, currentLanguage := currentLanguage s,
              connectionStatus := connectionStatus s,
              conversationMode := conversationMode s\<rparr>
      else s')"

fun step :: "nat \<Rightarrow> event \<Rightarrow> page \<Rightarrow> page" where
  "step now Mount s =
     (if lifecycle s = Rendered then connectWebSocket (s\<lparr>lifecycle := Mounted\<rparr>) else s)"
| "step now Unmount s =
     (if lifecycle s = Mounted then cleanup (s\<lparr>lifecycle := Unmounted\<rparr>) else s)"
| "step now (SocketOpened i) s =
     (if i < length (sockets s) \<and> sockets s ! i = CONNECTING
      then setState s (onopen (s\<lparr>sockets := (sockets s)[i := OPEN]\<rparr>))
      else s)"
| "step now (SocketClosed i) s =
     (if i < length (sockets s) \<and> sockets s ! i \<noteq> CLOSED
      then setState s (onclose (s\<lparr>sockets := (sockets s)[i := CLOSED]\<rparr>))
      else s)"
| "step now (SocketError i) s =
     (if i < length (sockets s) \<and> sockets s ! i \<noteq> CLOSED
      then setState s (onerror s)
      else s)"
| "step now (SocketMessage i data) s =
     (if i < length (sockets s) \<and> sockets s ! i = OPEN
      then setState s (catch s (handleSocketMessage now s data))
      else s)"
| "step now TimerFired s =
     (case timers s of
        [] \<Rightarrow> s
      | d # ds \<Rightarrow> setState s (connectWebSocket (s\<lparr>timers := ds\<rparr>)))"
| "step now (SetInputText v) s =
     (if lifecycle s = Unmounted then s else s\<lparr>inputText := v\<rparr>)"
| "step now EnterKey s =
     (if lifecycle s = Unmounted \<or> isProcessing s then s else handleSubmit now s)"
| "step now SendButton s =
     (if lifecycle s = Unmounted \<or> trim (inputText s) = [] \<or> isProcessing s then s
      else handleSubmit now s)"
| "step now ToggleLanguage s =
     (if lifecycle s = Unmounted then s else toggleLanguage s)"
| "step now (SetConversationMode m) s =
     (if lifecycle s = Unmounted then s else s\<lparr>conversationMode := m\<rparr>)"
| "step now RecorderButton s =
     (if lifecycle s = Unmounted \<or> isProcessing s then s else handleSubmit now s)"
| "step now (RecorderStopped b l m) s = setState s (handleRecordingComplete l m s b)"
| "step now (LoadEnd ok) s =
     (case readers s of
        [] \<Rightarrow> s
      | (b, l, m) # rs \<Rightarrow>
          catch (s\<lparr>readers := rs\<rparr>)
            (onloadend (s\<lparr>readers := rs\<rparr>) l m (if ok then Some (dataURL b) else None)))"

text \<open>A run: the events in order, each with the clock reading at which it is handled.\<close>

fun run :: "(nat \<times> event) list \<Rightarrow> page \<Rightarrow> page" where
  "run [] s = s"
| "run ((now, e) # es) s = run es (step now e s)"

subsection \<open>Reading a run\<close>

text \<open>
  A server message is answered when its socket is open and \<open>handleSocketMessage\<close>
  returns without an exception; \<open>answered\<close> counts these along a run.
\<close>

fun answers :: "nat \<Rightarrow> event \<Rightarrow> page \<Rightarrow> bool" where
  "answers now (SocketMessage i d) s =
     (i < length (sockets s) \<and> sockets s ! i = OPEN
      \<and> (case handleSocketMessage now s d of Inl e \<Rightarrow> False | Inr s' \<Rightarrow> True))"
| "answers now e s = False"

fun answered :: "(nat \<times> event) list \<Rightarrow> page \<Rightarrow> nat" where
  "answered [] s = 0"
| "answered ((now, e) # es) s =
     (if answers now e s then 1 else 0) + answered es (step now e s)"

text \<open>
  Every clip of the run is handed over while the component is mounted and its
  processing flag is not set.
\<close>

fun isRecorderStopped :: "event \<Rightarrow> bool" where
  "isRecorderStopped (RecorderStopped b l m) = True"
| "isRecorderStopped e = False"

fun handoversIdle :: "(nat \<times> event) list \<Rightarrow> page \<Rightarrow> bool" where
  "handoversIdle [] s = True"
| "handoversIdle ((now, e) # es) s =
     ((if isRecorderStopped e then lifecycle s \<noteq> Unmounted \<and> \<not> isProcessing s else True)
      \<and> handoversIdle es (step now e s))"

text \<open>The frames sent so far together with the reads still pending.\<close>

definition in_flight :: "page \<Rightarrow> nat" where
  "in_flight s = length (wire s) + length (readers s)"

subsection \<open>Example states\<close>

text \<open>
  States the component reaches: after mounting; after the socket has opened; after the
  language was toggled twice (to \<open>en\<close>); with a text turn sent and not yet answered.
  \<open>clip\<close> is a recording of three bytes.
\<close>

definition connecting_page :: page where
  "connecting_page = step 0 Mount (initial True)"

definition open_page :: page where
  "open_page = run [(0, Mount), (1, SocketOpened 0)] (initial True)"

definition english_page :: page where
  "english_page = run [(2, ToggleLanguage), (3, ToggleLanguage)] open_page"

definition pending_page :: page where
  "pending_page = run [(2, SetInputText (str ''first'')), (3, EnterKey)] open_page"

definition clip :: blob where
  "clip = \<lparr>b_bytes = [1, 2, 3], b_type = str ''audio/webm''\<rparr>"

section \<open>The VoiceRecorder component\<close>

text \<open>
  The platform objects the component acquires are named by numbers: a media stream, an
  audio context, a requested animation frame, an interval. The platform hands out
  numbers above zero, never the same twice (\<open>nextId\<close>). A MediaRecorder keeps the
  stream and the type it was constructed with (its \<open>onstop\<close> closes over them) and
  is recording, stopping (it was told to stop, by \<^verbatim>\<open>stop()\<close> or because the tracks
  of its stream ended, and its last events are still to come) or inactive.
\<close>

datatype recordingState = Recording | Stopping | Inactive

record mediaRecorder =
  r_stream :: nat
  r_mimeType :: jsstring
  r_state :: recordingState

text \<open>The calls that release a resource, in the order they were made.\<close>

datatype release = StopTracks nat | CloseContext nat | CancelAnimationFrame nat | ClearInterval nat

text \<open>
  The state of the component (its React state, its refs, the \<open>disabled\<close> prop and
  where it is in its life), the platform (the recorders constructed, the resources that
  are live, the release calls made) and the clips handed to \<open>onRecordingComplete\<close>.
  \<open>requesting\<close> counts the calls of \<open>requestMicrophonePermission\<close> and
  \<open>starting\<close> the calls of \<open>startRecording\<close> that wait for
  \<^verbatim>\<open>getUserMedia\<close>. The level shown by the meter, a float, is left out.
\<close>

record voice =
  isRecording :: bool
  recordingTime :: nat
  hasPermission :: "bool option"
  disabled :: bool
  phase :: lifecycle
  mediaRecorderRef :: "nat option"
  audioChunksRef :: "nat list list"
  audioContextRef :: "nat option"
  animationFrameRef :: "nat option"
  intervalRef :: "nat option"
  requesting :: nat
  starting :: nat
  nextId :: nat
  recorders :: "mediaRecorder list"
  liveStreams :: "nat list"
  openContexts :: "nat list"
  pendingFrames :: "nat list"
  activeIntervals :: "nat list"
  calls :: "release list"
  completed :: "blob list"


text \<open>
  \<^verbatim>\<open>if (ref.current)\<close> for a ref that holds a number or null: null and zero are
  false.
\<close>

fun truthy :: "nat option \<Rightarrow> bool" where
  "truthy None = False"
| "truthy (Some n) = (n \<noteq> 0)"

definition fresh :: "voice \<Rightarrow> nat" where
  "fresh s = Suc (nextId s)"

definition stopTracks :: "nat \<Rightarrow> voice \<Rightarrow> voice" where
  "stopTracks stream s =
     s\<lparr>liveStreams := removeAll stream (liveStreams s), calls := calls s @ [StopTracks stream]\<rparr>"

text \<open>
  \<^verbatim>\<open>
  const requestMicrophonePermission = async () => {
    try {
      const stream = await navigator.mediaDevices.getUserMedia({ audio: true });
      setHasPermission(true);
      stream.getTracks().forEach(track => track.stop());
    } catch (error) {
      console.error('Microphone permission denied:', error);
      setHasPermission(false);
    }
  };
  \<close>
  The function runs up to the \<^verbatim>\<open>await\<close>; it goes on when the platform grants the
  stream or refuses it.
\<close>

definition requestMicrophonePermission :: "voice \<Rightarrow> voice" where
  "requestMicrophonePermission s = s\<lparr>requesting := Suc (requesting s)\<rparr>"

definition requestMicrophonePermission_granted :: "voice \<Rightarrow> voice" where
  "requestMicrophonePermission_granted s =
     (let stream = fresh s
      in stopTracks stream
           (s\<lparr>requesting := requesting s - 1, liveStreams := liveStreams s @ [stream],
              nextId := stream, hasPermission := Some True\<rparr>))"

definition requestMicrophonePermission_refused :: "voice \<Rightarrow> voice" where
  "requestMicrophonePermission_refused s =
     s\<lparr>requesting := requesting s - 1, hasPermission := Some False\<rparr>"

text \<open>
  \<^verbatim>\<open>
  const updateAudioLevel = () => {
    analyserRef.current.getByteFrequencyData(dataArray);
    const average = dataArray.reduce((sum, value) => sum + value, 0) / bufferLength;
    setAudioLevel(average / 255 * 100);
    animationFrameRef.current = requestAnimationFrame(updateAudioLevel);
  };
  \<close>
\<close>

definition updateAudioLevel :: "voice \<Rightarrow> voice" where
  "updateAudioLevel s =
     s\<lparr>animationFrameRef := Some (fresh s), pendingFrames := pendingFrames s @ [fresh s],
       nextId := fresh s\<rparr>"

text \<open>
  \<^verbatim>\<open>
  const startRecording = async () => {
    if (!hasPermission || disabled) return;
    try {
      const stream = await navigator.mediaDevices.getUserMedia({ audio: {...} });
      audioContextRef.current = new (window.AudioContext || window.webkitAudioContext)();
      analyserRef.current = audioContextRef.current.createAnalyser();
      const source = audioContextRef.current.createMediaStreamSource(stream);
      source.connect(analyserRef.current);
      ...
      updateAudioLevel();
      const mimeType = getSupportedMimeType();
      mediaRecorderRef.current = new MediaRecorder(stream, { mimeType: mimeType, ... });
      audioChunksRef.current = [];
      mediaRecorderRef.current.ondataavailable = (event) => { ... };
      mediaRecorderRef.current.onstop = () => { ... };
      mediaRecorderRef.current.start();
      setIsRecording(true);
      intervalRef.current = setInterval(() => { setRecordingTime(prev => prev + 1); }, 1000);
    } catch (error) {
      console.error('Failed to start recording:', error);
      alert('Failed to access microphone. Please check permissions.');
    }
  };
  \<close>
  The function runs up to the \<^verbatim>\<open>await\<close>; it goes on when the platform grants the
  stream (\<open>startRecording_granted\<close>) or refuses it (\<open>startRecording_refused\<close>). The
  constructor of MediaRecorder and its \<^verbatim>\<open>start()\<close> may throw; the outcome says which,
  and the \<^verbatim>\<open>catch\<close> keeps what was done before.
\<close>

datatype outcome = Started | ConstructorThrows | StartThrows

definition startRecording :: "voice \<Rightarrow> voice" where
  "startRecording s =
     (if hasPermission s \<noteq> Some True \<or> disabled s then s
      else s\<lparr>starting := Suc (starting s)\<rparr>)"

definition startRecording_refused :: "voice \<Rightarrow> voice" where
  "startRecording_refused s = s\<lparr>starting := starting s - 1\<rparr>"

definition acquire :: "voice \<Rightarrow> voice" where
  "acquire s =
     (let stream = fresh s;
          s1 = s\<lparr>liveStreams := liveStreams s @ [stream], nextId := stream,
                 starting := starting s - 1\<rparr>;
          context = fresh s1
      in updateAudioLevel
           (s1\<lparr>audioContextRef := Some context, openContexts := openContexts s1 @ [context],
               nextId := context\<rparr>))"

definition startRecording_granted :: "(jsstring \<Rightarrow> bool) \<Rightarrow> outcome \<Rightarrow> voice \<Rightarrow> voice" where
  "startRecording_granted isTypeSupported out s =
     (let stream = fresh s;
          s2 = acquire s;
          mimeType = getSupportedMimeType isTypeSupported
      in case out of
           ConstructorThrows \<Rightarrow> s2
         | StartThrows \<Rightarrow>
             s2\<lparr>mediaRecorderRef := Some (length (recorders s2)),
                recorders := recorders s2 @
                  [\<lparr>r_stream = stream, r_mimeType = mimeType, r_state = Inactive\<rparr>],
                audioChunksRef := []\<rparr>
         | Started \<Rightarrow>
             s2\<lparr>mediaRecorderRef := Some (length (recorders s2)),
                recorders := recorders s2 @
                  [\<lparr>r_stream = stream, r_mimeType = mimeType, r_state = Recording\<rparr>],
                audioChunksRef := [],
                isRecording := True,
                intervalRef := Some (fresh s2),
                activeIntervals := activeIntervals s2 @ [fresh s2],
                nextId := fresh s2\<rparr>)"

text \<open>
  \<^verbatim>\<open>
  mediaRecorderRef.current.ondataavailable = (event) => {
    if (event.data.size > 0) { audioChunksRef.current.push(event.data); }
  };
  mediaRecorderRef.current.onstop = () => {
    const audioBlob = new Blob(audioChunksRef.current, { type: mimeType });
    onRecordingComplete(audioBlob);
    stream.getTracks().forEach(track => track.stop());
    if (audioContextRef.current) { audioContextRef.current.close(); }
    if (animationFrameRef.current) { cancelAnimationFrame(animationFrameRef.current); }
    if (intervalRef.current) { clearInterval(intervalRef.current); }
    setAudioLevel(0);
    setRecordingTime(0);
  };
  \<close>
  \<open>onRecordingComplete\<close> is the page's \<open>handleRecordingComplete\<close>, which returns
  without an exception.
\<close>

definition ondataavailable :: "nat list \<Rightarrow> voice \<Rightarrow> voice" where
  "ondataavailable chunk s =
     (if length chunk > 0 then s\<lparr>audioChunksRef := audioChunksRef s @ [chunk]\<rparr> else s)"

definition closeContext :: "voice \<Rightarrow> voice" where
  "closeContext s =
     (case audioContextRef s of
        None \<Rightarrow> s
      | Some c \<Rightarrow>
          s\<lparr>openContexts := removeAll c (openContexts s), calls := calls s @ [CloseContext c]\<rparr>)"

definition cancelFrame :: "voice \<Rightarrow> voice" where
  "cancelFrame s =
     (if truthy (animationFrameRef s)
      then s\<lparr>pendingFrames := removeAll (the (animationFrameRef s)) (pendingFrames s),
             calls := calls s @ [CancelAnimationFrame (the (animationFrameRef s))]\<rparr>
      else s)"

definition clearTimer :: "voice \<Rightarrow> voice" where
  "clearTimer s =
     (if truthy (intervalRef s)
      then s\<lparr>activeIntervals := removeAll (the (intervalRef s)) (activeIntervals s),
             calls := calls s @ [ClearInterval (the (intervalRef s))]\<rparr>
      else s)"

definition onstop :: "mediaRecorder \<Rightarrow> voice \<Rightarrow> voice" where
  "onstop r s =
     (let audioBlob = \<lparr>b_bytes = concat (audioChunksRef s), b_type = r_mimeType r\<rparr>;
          s1 = s\<lparr>completed := completed s @ [audioBlob]\<rparr>;
          s2 = clearTimer (cancelFrame (closeContext (stopTracks (r_stream r) s1)))
      in s2\<lparr>recordingTime := 0\<rparr>)"

text \<open>
  \<^verbatim>\<open>
  const stopRecording = () => {
    if (mediaRecorderRef.current && isRecording) {
      mediaRecorderRef.current.stop();
      setIsRecording(false);
    }
  };
  \<close>
  \<^verbatim>\<open>stop()\<close> on a recorder that is recording makes it stop: its last data and its
  stop event follow; on another recorder it does nothing.
\<close>

definition stopRecording :: "voice \<Rightarrow> voice" where
  "stopRecording s =
     (case mediaRecorderRef s of
        None \<Rightarrow> s
      | Some i \<Rightarrow>
          if isRecording s then
            (if i < length (recorders s) \<and> r_state (recorders s ! i) = Recording
             then s\<lparr>recorders := (recorders s)[i := (recorders s ! i)\<lparr>r_state := Stopping\<rparr>],
                    isRecording := False\<rparr>
             else s\<lparr>isRecording := False\<rparr>)
          else s)"

text \<open>The cleanup on unmount cancels the frame and the interval.\<close>

definition unmount :: "voice \<Rightarrow> voice" where
  "unmount s = clearTimer (cancelFrame s)"

subsection \<open>The events the recorder receives\<close>

text \<open>
  \<open>VMount\<close> is the run of the effect, once, after the first render: it asks for the
  permission; \<open>VUnmount\<close> is its cleanup. \<open>SetDisabled\<close> is a render of the page
  with another value of the prop. What \<open>Click\<close> does depends on what is rendered:
  while \<open>hasPermission\<close> is \<^verbatim>\<open>null\<close> there is no button; when it is
  \<^verbatim>\<open>false\<close> the button calls \<open>requestMicrophonePermission\<close>; otherwise it calls
  \<open>stopRecording\<close> or \<open>startRecording\<close>; both buttons are rendered with
  \<^verbatim>\<open>disabled={disabled}\<close>. \<open>PermissionGranted\<close>, \<open>PermissionRefused\<close>,
  \<open>Granted\<close> and \<open>Refused\<close> are the answers of \<^verbatim>\<open>getUserMedia\<close> to a call
  that waits for it. A frame or an interval fires only while it is pending or active. A
  recorder delivers data while it is recording or stopping; \<open>TracksEnded\<close> is the end
  of the tracks of its stream, on which the platform stops a recorder that is recording;
  its stop event \<open>Stopped\<close> comes once it is stopping.

  After the unmount the state setters called by a handler do nothing: the refs and the
  platform objects change, the React state stays (\<open>vsetState\<close>).
\<close>

datatype vevent =
    VMount
  | VUnmount
  | SetDisabled bool
  | Click
  | PermissionGranted
  | PermissionRefused
  | Granted outcome
  | Refused
  | AnimationFrame nat
  | IntervalTick nat
  | DataAvailable nat "nat list"
  | TracksEnded nat
  | Stopped nat

definition vsetState :: "voice \<Rightarrow> voice \<Rightarrow> voice" where
  "vsetState s s' =
     (if phase s = Unmounted
      then s'\<lparr>isRecording := isRecording s, recordingTime := recordingTime s,
              hasPermission := hasPermission s\<rparr>
      else s')"

definition active :: "voice \<Rightarrow> nat \<Rightarrow> bool" where
  "active s i \<longleftrightarrow> i < length (recorders s) \<and> r_state (recorders s ! i) \<noteq> Inactive"

definition inState :: "voice \<Rightarrow> nat \<Rightarrow> recordingState \<Rightarrow> bool" where
  "inState s i st \<longleftrightarrow> i < length (recorders s) \<and> r_state (recorders s ! i) = st"

fun vstep :: "(jsstring \<Rightarrow> bool) \<Rightarrow> vevent \<Rightarrow> voice \<Rightarrow> voice" where
  "vstep caps VMount s =
     (if phase s = Rendered then requestMicrophonePermission (s\<lparr>phase := Mounted\<rparr>) else s)"
| "vstep caps VUnmount s =
     (if phase s = Mounted then unmount (s\<lparr>phase := Unmounted\<rparr>) else s)"
| "vstep caps (SetDisabled d) s = (if phase s = Unmounted then s else s\<lparr>disabled := d\<rparr>)"
| "vstep caps Click s =
     (if phase s \<noteq> Mounted \<or> disabled s then s
      else case hasPermission s of
             None \<Rightarrow> s
           | Some False \<Rightarrow> requestMicrophonePermission s
           | Some True \<Rightarrow> if isRecording s then stopRecording s else startRecording s)"
| "vstep caps PermissionGranted s =
     (if requesting s = 0 then s else vsetState s (requestMicrophonePermission_granted s))"
| "vstep caps PermissionRefused s =
     (if requesting s = 0 then s else vsetState s (requestMicrophonePermission_refused s))"
| "vstep caps (Granted out) s =
     (if starting s = 0 then s else vsetState s (startRecording_granted caps out s))"
| "vstep caps Refused s = (if starting s = 0 then s else startRecording_refused s)"
| "vstep caps (AnimationFrame f) s =
     (if f \<in> set (pendingFrames s)
      then updateAudioLevel (s\<lparr>pendingFrames := removeAll f (pendingFrames s)\<rparr>)
      else s)"
| "vstep caps (IntervalTick v) s =
     (if v \<in> set (activeIntervals s)
      then vsetState s (s\<lparr>recordingTime := Suc (recordingTime s)\<rparr>)
      else s)"
| "vstep caps (DataAvailable i chunk) s = (if active s i then ondataavailable chunk s else s)"
| "vstep caps (TracksEnded i) s =
     (if inState s i Recording
      then s\<lparr>recorders := (recorders s)[i := (recorders s ! i)\<lparr>r_state := Stopping\<rparr>]\<rparr>
      else s)"
| "vstep caps (Stopped i) s =
     (if inState s i Stopping
      then vsetState s
             (onstop (recorders s ! i)
                (s\<lparr>recorders := (recorders s)[i := (recorders s ! i)\<lparr>r_state := Inactive\<rparr>]\<rparr>))
      else s)"


subsection \<open>Capture sessions\<close>











section \<open>Properties of the JSON parser\<close>

text \<open>
  The rest left by a parser is shorter than its input, and the bound that
  \<open>JSON_parse\<close> sets is never used up.
\<close>

declare parse_chars.simps [simp del]


lemma skip_ws_length: "length (skip_ws cs) \<le> length cs"
  by (simp add: skip_ws_def length_dropWhile_le)

lemma pmap_Parsed: "pmap f r = Parsed v rest \<longleftrightarrow> (\<exists>w. r = Parsed w rest \<and> v = f w)"
  by (cases r) auto

lemma pmap_OutOfFuel: "pmap f r = OutOfFuel \<longleftrightarrow> r = OutOfFuel"
  by (cases r) auto

lemma parse_chars_quote: "parse_chars (34 # cs) = Parsed [] cs"
  by (simp add: parse_chars.simps)

lemma parse_chars_unicode:
  "parse_chars (92 # 117 # h1 # h2 # h3 # h4 # r) =
     (case hex4 h1 h2 h3 h4 of None \<Rightarrow> Failed | Some u \<Rightarrow> pmap ((#) u) (parse_chars r))"
  by (simp add: parse_chars.simps)

lemma parse_chars_unicode_short:
  "length es < 4 \<Longrightarrow> parse_chars (92 # 117 # es) = Failed"
  by (auto simp: parse_chars.simps split: list.splits)

lemma parse_chars_escape:
  "e \<noteq> 117 \<Longrightarrow> parse_chars (92 # e # es) =
     (case unescape e of None \<Rightarrow> Failed | Some u \<Rightarrow> pmap ((#) u) (parse_chars es))"
  by (simp add: parse_chars.simps)

lemma parse_chars_backslash_end: "parse_chars [92] = Failed"
  by (simp add: parse_chars.simps)

lemma parse_chars_plain:
  "c \<noteq> 34 \<Longrightarrow> c \<noteq> 92 \<Longrightarrow>
   parse_chars (c # cs) = (if c < 32 then Failed else pmap ((#) c) (parse_chars cs))"
  by (simp add: parse_chars.simps)

lemma parse_chars_cases:
  obtains (empty) "cs = []"
  | (quote) r where "cs = 34 # r"
  | (bs_end) "cs = [92]"
  | (unicode) h1 h2 h3 h4 r where "cs = 92 # 117 # h1 # h2 # h3 # h4 # r"
  | (unicode_short) es where "cs = 92 # 117 # es" "length es < 4"
  | (escape) e es where "cs = 92 # e # es" "e \<noteq> 117"
  | (plain) c r where "cs = c # r" "c \<noteq> 34" "c \<noteq> 92"
proof (cases cs)
  case Nil
  then show ?thesis using empty by simp
next
  case (Cons c r)
  show ?thesis
  proof (cases "c = 34")
    case True
    then show ?thesis using quote Cons by simp
  next
    case c34: False
    show ?thesis
    proof (cases "c = 92")
      case False
      then show ?thesis using plain Cons c34 by simp
    next
      case True
      show ?thesis
      proof (cases r)
        case Nil
        then show ?thesis using bs_end Cons True by simp
      next
        case es: (Cons e es)
        show ?thesis
        proof (cases "e = 117")
          case False
          then show ?thesis using escape Cons True es by simp
        next
          case e117: True
          show ?thesis
          proof (cases "length es < 4")
            case True
            then show ?thesis using unicode_short Cons \<open>c = 92\<close> es e117 by simp
          next
            case False
            then obtain h1 h2 h3 h4 r' where "es = h1 # h2 # h3 # h4 # r'"
              by (cases es; cases "tl es"; cases "tl (tl es)"; cases "tl (tl (tl es))") auto
            then show ?thesis using unicode Cons \<open>c = 92\<close> es e117 by simp
          qed
        qed
      qed
    qed
  qed
qed

lemma parse_chars_shorter: "parse_chars cs = Parsed s rest \<Longrightarrow> length rest < length cs"
proof (induction cs arbitrary: s rest rule: length_induct)
  case (1 cs)
  note IH = "1.IH" [rule_format]
  show ?case
  proof (cases cs rule: parse_chars_cases)
    case empty
    then show ?thesis using "1.prems" by (simp add: parse_chars.simps(1))
  next
    case (quote r)
    then show ?thesis using "1.prems" by (simp add: parse_chars_quote)
  next
    case bs_end
    then show ?thesis using "1.prems" by (simp add: parse_chars_backslash_end)
  next
    case (unicode h1 h2 h3 h4 r)
    then obtain u w where "parse_chars r = Parsed w rest"
      using "1.prems" by (auto simp: parse_chars_unicode pmap_Parsed split: option.splits)
    then have "length rest < length r" using IH [of r w rest] unicode by simp
    then show ?thesis using unicode by simp
  next
    case (unicode_short es)
    then show ?thesis using "1.prems" by (simp add: parse_chars_unicode_short)
  next
    case (escape e es)
    then obtain w where "parse_chars es = Parsed w rest"
      using "1.prems" by (auto simp: parse_chars_escape pmap_Parsed split: option.splits)
    then have "length rest < length es" using IH [of es w rest] escape by simp
    then show ?thesis using escape by simp
  next
    case (plain c r)
    then obtain w where "parse_chars r = Parsed w rest"
      using "1.prems" by (auto simp: parse_chars_plain pmap_Parsed split: if_splits)
    then have "length rest < length r" using IH [of r w rest] plain by simp
    then show ?thesis using plain by simp
  qed
qed

lemma parse_chars_fuel: "parse_chars cs \<noteq> OutOfFuel"
proof (induction cs rule: length_induct)
  case (1 cs)
  note IH = "1.IH" [rule_format]
  show ?case
  proof (cases cs rule: parse_chars_cases)
    case empty
    then show ?thesis by (simp add: parse_chars.simps(1))
  next
    case (quote r)
    then show ?thesis by (simp add: parse_chars_quote)
  next
    case bs_end
    then show ?thesis by (simp add: parse_chars_backslash_end)
  next
    case (unicode h1 h2 h3 h4 r)
    then have "parse_chars r \<noteq> OutOfFuel" using IH [of r] by simp
    then show ?thesis using unicode
      by (simp add: parse_chars_unicode pmap_OutOfFuel split: option.splits)
  next
    case (unicode_short es)
    then show ?thesis by (simp add: parse_chars_unicode_short)
  next
    case (escape e es)
    then have "parse_chars es \<noteq> OutOfFuel" using IH [of es] by simp
    then show ?thesis using escape
      by (simp add: parse_chars_escape pmap_OutOfFuel split: option.splits)
  next
    case (plain c r)
    then have "parse_chars r \<noteq> OutOfFuel" using IH [of r] by simp
    then show ?thesis using plain
      by (simp add: parse_chars_plain pmap_OutOfFuel)
  qed
qed

lemma parse_digits_shorter: "parse_digits cs = Parsed s rest \<Longrightarrow> length rest < length cs"
proof -
  assume a: "parse_digits cs = Parsed s rest"
  then have ne: "takeWhile isDigit cs \<noteq> []" and r: "rest = dropWhile isDigit cs"
    by (auto simp: parse_digits_def split: list.splits)
  have "length (takeWhile isDigit cs) + length (dropWhile isDigit cs) = length cs"
    by (metis length_append takeWhile_dropWhile_id)
  moreover have "0 < length (takeWhile isDigit cs)" using ne by simp
  ultimately show ?thesis using r by arith
qed

lemma parse_digits_fuel: "parse_digits cs \<noteq> OutOfFuel"
  by (auto simp: parse_digits_def split: list.splits)

lemma parse_int_part_shorter:
  "parse_int_part cs = Parsed s rest \<Longrightarrow> length rest < length cs"
  by (cases cs) (auto simp: parse_int_part_def split: if_splits dest: parse_digits_shorter)

lemma parse_int_part_fuel: "parse_int_part cs \<noteq> OutOfFuel"
  by (cases cs) (auto simp: parse_int_part_def parse_digits_fuel)

lemma parse_fraction_shorter:
  "parse_fraction cs = Parsed s rest \<Longrightarrow> length rest \<le> length cs"
  by (cases cs) (auto simp: parse_fraction_def pmap_Parsed split: if_splits dest: parse_digits_shorter)

lemma parse_fraction_fuel: "parse_fraction cs \<noteq> OutOfFuel"
  by (cases cs) (auto simp: parse_fraction_def parse_digits_fuel pmap_OutOfFuel)

lemma parse_exponent_shorter:
  "parse_exponent cs = Parsed s rest \<Longrightarrow> length rest \<le> length cs"
  by (cases cs)
    (auto simp: parse_exponent_def pmap_Parsed split: if_splits list.splits
      dest!: parse_digits_shorter)

lemma parse_exponent_fuel: "parse_exponent cs \<noteq> OutOfFuel"
  by (cases cs)
    (auto simp: parse_exponent_def parse_digits_fuel pmap_OutOfFuel split: list.splits)

lemma parse_unsigned_shorter:
  "parse_unsigned cs = Parsed s rest \<Longrightarrow> length rest < length cs"
proof -
  assume a: "parse_unsigned cs = Parsed s rest"
  then obtain i r1 where i: "parse_int_part cs = Parsed i r1"
    by (cases "parse_int_part cs") (auto simp: parse_unsigned_def)
  then obtain f r2 where f: "parse_fraction r1 = Parsed f r2"
    using a by (cases "parse_fraction r1") (auto simp: parse_unsigned_def)
  then obtain e where e: "parse_exponent r2 = Parsed e rest"
    using a i by (auto simp: parse_unsigned_def pmap_Parsed)
  show ?thesis
    using parse_int_part_shorter [OF i] parse_fraction_shorter [OF f]
      parse_exponent_shorter [OF e] by arith
qed

lemma parse_unsigned_fuel: "parse_unsigned cs \<noteq> OutOfFuel"
proof (cases "parse_int_part cs")
  case OutOfFuel
  then show ?thesis using parse_int_part_fuel by blast
next
  case Failed
  then show ?thesis by (simp add: parse_unsigned_def)
next
  case (Parsed i r1)
  show ?thesis
  proof (cases "parse_fraction r1")
    case OutOfFuel
    then show ?thesis using parse_fraction_fuel by blast
  next
    case Failed
    then show ?thesis using Parsed by (simp add: parse_unsigned_def)
  next
    case p2: (Parsed f r2)
    then show ?thesis using Parsed
      by (simp add: parse_unsigned_def pmap_OutOfFuel parse_exponent_fuel)
  qed
qed

lemma parse_number_shorter:
  "parse_number cs = Parsed s rest \<Longrightarrow> length rest < length cs"
  by (cases cs)
    (auto simp: parse_number_def pmap_Parsed split: if_splits dest!: parse_unsigned_shorter)

lemma parse_number_fuel: "parse_number cs \<noteq> OutOfFuel"
  by (cases cs) (auto simp: parse_number_def pmap_OutOfFuel parse_unsigned_fuel)

lemma parse_literal_shorter:
  "word \<noteq> [] \<Longrightarrow> parse_literal word v cs = Parsed w rest \<Longrightarrow> length rest < length cs"
proof -
  assume ne: "word \<noteq> []" and a: "parse_literal word v cs = Parsed w rest"
  then have t: "take (length word) cs = word" and r: "rest = drop (length word) cs"
    by (auto simp: parse_literal_def split: if_splits)
  have "length (take (length word) cs) = length word" using t by simp
  then have "length word \<le> length cs" by simp
  then show ?thesis using r ne by (cases word) auto
qed

lemma parse_literal_fuel: "parse_literal word v cs \<noteq> OutOfFuel"
  by (simp add: parse_literal_def)

declare parse_value.simps [simp del] parse_elements.simps [simp del] parse_members.simps [simp del]

lemma isDigit_simps [simp]:
  "\<not> isDigit 123" "\<not> isDigit 91" "\<not> isDigit 34" "\<not> isDigit 116" "\<not> isDigit 102"
  "\<not> isDigit 110" "\<not> isDigit 45"
  by (simp_all add: isDigit_def)

lemma parse_value_object:
  "parse_value (Suc n) (123 # r) =
     (case skip_ws r of
        [] \<Rightarrow> Failed
      | c' # r' \<Rightarrow>
          if c' = 125 then Parsed (JObject []) r'
          else pmap JObject (parse_members n (c' # r')))"
  by (simp add: parse_value.simps)

lemma parse_value_array:
  "parse_value (Suc n) (91 # r) =
     (case skip_ws r of
        [] \<Rightarrow> Failed
      | c' # r' \<Rightarrow>
          if c' = 93 then Parsed (JArray []) r'
          else pmap JArray (parse_elements n (c' # r')))"
  by (simp add: parse_value.simps)

lemma parse_value_string: "parse_value (Suc n) (34 # r) = pmap JString (parse_chars r)"
  by (simp add: parse_value.simps)

lemma parse_value_number:
  "c = 45 \<or> isDigit c \<Longrightarrow> parse_value (Suc n) (c # r) = pmap JNumber (parse_number (c # r))"
  by (auto simp: parse_value.simps isDigit_def)

lemma parse_value_true:
  "parse_value (Suc n) (116 # r) = parse_literal (str ''true'') (JBool True) (116 # r)"
  by (simp add: parse_value.simps)

lemma parse_value_false:
  "parse_value (Suc n) (102 # r) = parse_literal (str ''false'') (JBool False) (102 # r)"
  by (simp add: parse_value.simps)

lemma parse_value_null:
  "parse_value (Suc n) (110 # r) = parse_literal (str ''null'') JNull (110 # r)"
  by (simp add: parse_value.simps)

lemma parse_value_other:
  "c \<notin> {123, 91, 34, 45, 116, 102, 110} \<Longrightarrow> \<not> isDigit c \<Longrightarrow>
   parse_value (Suc n) (c # r) = Failed"
  by (simp add: parse_value.simps)

lemma parse_value_Nil: "parse_value (Suc n) [] = Failed"
  by (simp add: parse_value.simps)

lemma parse_value_cases:
  obtains (empty) "cs = []"
  | (object) r where "cs = 123 # r"
  | (array) r where "cs = 91 # r"
  | (string) r where "cs = 34 # r"
  | (number) c r where "cs = c # r" "c = 45 \<or> isDigit c"
  | (true) r where "cs = 116 # r"
  | (false) r where "cs = 102 # r"
  | (null) r where "cs = 110 # r"
  | (other) c r where "cs = c # r" "c \<notin> {123, 91, 34, 45, 116, 102, 110}" "\<not> isDigit c"
  by (cases cs) auto

lemma str_literals:
  "str ''true'' = [116, 114, 117, 101]" "str ''false'' = [102, 97, 108, 115, 101]"
  "str ''null'' = [110, 117, 108, 108]"
  by (simp_all add: str_def)

lemma parse_shorter:
  "(\<forall>cs v rest. parse_value n cs = Parsed v rest \<longrightarrow> length rest < length cs)
   \<and> (\<forall>cs vs rest. parse_elements n cs = Parsed vs rest \<longrightarrow> length rest < length cs)
   \<and> (\<forall>cs ms rest. parse_members n cs = Parsed ms rest \<longrightarrow> length rest < length cs)"
proof (induction n)
  case 0
  show ?case by (simp add: parse_value.simps parse_elements.simps parse_members.simps)
next
  case (Suc n)
  then have IHv: "\<And>cs v rest. parse_value n cs = Parsed v rest \<Longrightarrow> length rest < length cs"
    and IHe: "\<And>cs v rest. parse_elements n cs = Parsed v rest \<Longrightarrow> length rest < length cs"
    and IHm: "\<And>cs v rest. parse_members n cs = Parsed v rest \<Longrightarrow> length rest < length cs"
    by blast+
  have v: "length rest < length cs" if a: "parse_value (Suc n) cs = Parsed v rest" for cs v rest
  proof (cases cs rule: parse_value_cases)
    case empty
    then show ?thesis using a by (simp add: parse_value_Nil)
  next
    case (object r)
    show ?thesis
    proof (cases "skip_ws r")
      case Nil
      then show ?thesis using a object by (simp add: parse_value_object)
    next
      case (Cons c' r')
      have le: "length (c' # r') \<le> length r" using skip_ws_length [of r] Cons by simp
      show ?thesis
      proof (cases "c' = 125")
        case True
        then have "rest = r'" using a object Cons by (simp add: parse_value_object)
        then show ?thesis using le object by simp
      next
        case False
        then obtain ms where "parse_members n (c' # r') = Parsed ms rest"
          using a object Cons by (auto simp: parse_value_object pmap_Parsed)
        then have "length rest < length (c' # r')" by (rule IHm)
        then show ?thesis using le object by simp
      qed
    qed
  next
    case (array r)
    show ?thesis
    proof (cases "skip_ws r")
      case Nil
      then show ?thesis using a array by (simp add: parse_value_array)
    next
      case (Cons c' r')
      have le: "length (c' # r') \<le> length r" using skip_ws_length [of r] Cons by simp
      show ?thesis
      proof (cases "c' = 93")
        case True
        then have "rest = r'" using a array Cons by (simp add: parse_value_array)
        then show ?thesis using le array by simp
      next
        case False
        then obtain ms where "parse_elements n (c' # r') = Parsed ms rest"
          using a array Cons by (auto simp: parse_value_array pmap_Parsed)
        then have "length rest < length (c' # r')" by (rule IHe)
        then show ?thesis using le array by simp
      qed
    qed
  next
    case (string r)
    then obtain w where "parse_chars r = Parsed w rest"
      using a by (auto simp: parse_value_string pmap_Parsed)
    then show ?thesis using parse_chars_shorter string by fastforce
  next
    case (number c r)
    then obtain w where "parse_number cs = Parsed w rest"
      using a by (auto simp: parse_value_number pmap_Parsed)
    then show ?thesis by (rule parse_number_shorter)
  next
    case (true r)
    then show ?thesis using a parse_literal_shorter [of "str ''true''" "JBool True" cs v rest]
      by (simp add: parse_value_true str_literals)
  next
    case (false r)
    then show ?thesis using a parse_literal_shorter [of "str ''false''" "JBool False" cs v rest]
      by (simp add: parse_value_false str_literals)
  next
    case (null r)
    then show ?thesis using a parse_literal_shorter [of "str ''null''" JNull cs v rest]
      by (simp add: parse_value_null str_literals)
  next
    case (other c r)
    then show ?thesis using a by (simp add: parse_value_other)
  qed
  have e: "length rest < length cs" if a: "parse_elements (Suc n) cs = Parsed vs rest"
    for cs vs rest
  proof -
    obtain v r1 where v1: "parse_value n (skip_ws cs) = Parsed v r1"
      using a by (cases "parse_value n (skip_ws cs)") (auto simp: parse_elements.simps)
    then have l1: "length r1 < length cs"
      using IHv [OF v1] skip_ws_length [of cs] by simp
    obtain c r where c: "skip_ws r1 = c # r"
      using a v1 by (cases "skip_ws r1") (auto simp: parse_elements.simps)
    have l2: "length r < length cs" using l1 skip_ws_length [of r1] c by simp
    show ?thesis
    proof (cases "c = 44")
      case True
      then obtain ws where "parse_elements n r = Parsed ws rest"
        using a v1 c by (auto simp: parse_elements.simps pmap_Parsed)
      then show ?thesis using IHe l2 by fastforce
    next
      case False
      then have "rest = r" using a v1 c by (auto simp: parse_elements.simps split: if_splits)
      then show ?thesis using l2 by simp
    qed
  qed
  have m: "length rest < length cs" if a: "parse_members (Suc n) cs = Parsed ms rest"
    for cs ms rest
  proof -
    obtain q r where q: "skip_ws cs = q # r"
      using a by (cases "skip_ws cs") (auto simp: parse_members.simps)
    have q34: "q = 34" using a q by (auto simp: parse_members.simps split: if_splits)
    have l0: "length r < length cs" using skip_ws_length [of cs] q by simp
    obtain k r1 where k: "parse_chars r = Parsed k r1"
      using a q q34 by (cases "parse_chars r") (auto simp: parse_members.simps)
    have l1: "length r1 < length cs" using parse_chars_shorter [OF k] l0 by simp
    obtain colon r2 where c2: "skip_ws r1 = colon # r2"
      using a q q34 k by (cases "skip_ws r1") (auto simp: parse_members.simps)
    have col: "colon = 58" using a q q34 k c2 by (auto simp: parse_members.simps split: if_splits)
    have l2: "length r2 < length cs" using skip_ws_length [of r1] c2 l1 by simp
    obtain v r3 where v3: "parse_value n (skip_ws r2) = Parsed v r3"
      using a q q34 k c2 col
      by (cases "parse_value n (skip_ws r2)") (auto simp: parse_members.simps)
    have l3: "length r3 < length cs" using IHv [OF v3] skip_ws_length [of r2] l2 by simp
    obtain c r4 where c4: "skip_ws r3 = c # r4"
      using a q q34 k c2 col v3 by (cases "skip_ws r3") (auto simp: parse_members.simps)
    have l4: "length r4 < length cs" using skip_ws_length [of r3] c4 l3 by simp
    show ?thesis
    proof (cases "c = 44")
      case True
      then obtain ws where "parse_members n r4 = Parsed ws rest"
        using a q q34 k c2 col v3 c4 by (auto simp: parse_members.simps pmap_Parsed)
      then show ?thesis using IHm l4 by fastforce
    next
      case False
      then have "rest = r4" using a q q34 k c2 col v3 c4
        by (auto simp: parse_members.simps split: if_splits)
      then show ?thesis using l4 by simp
    qed
  qed
  show ?case using v e m by blast
qed


lemma parse_fuel:
  "(\<forall>cs. 2 * length cs < n \<longrightarrow> parse_value n cs \<noteq> OutOfFuel)
   \<and> (\<forall>cs. 2 * length cs + 1 < n \<longrightarrow> parse_elements n cs \<noteq> OutOfFuel)
   \<and> (\<forall>cs. 2 * length cs + 1 < n \<longrightarrow> parse_members n cs \<noteq> OutOfFuel)"
proof (induction n)
  case 0
  show ?case by simp
next
  case (Suc n)
  then have IHv: "\<And>cs. 2 * length cs < n \<Longrightarrow> parse_value n cs \<noteq> OutOfFuel"
    and IHe: "\<And>cs. 2 * length cs + 1 < n \<Longrightarrow> parse_elements n cs \<noteq> OutOfFuel"
    and IHm: "\<And>cs. 2 * length cs + 1 < n \<Longrightarrow> parse_members n cs \<noteq> OutOfFuel"
    by blast+
  have v: "parse_value (Suc n) cs \<noteq> OutOfFuel" if a: "2 * length cs < Suc n" for cs
  proof (cases cs rule: parse_value_cases)
    case empty
    then show ?thesis by (simp add: parse_value_Nil)
  next
    case (object r)
    show ?thesis
    proof (cases "skip_ws r")
      case Nil
      then show ?thesis using object by (simp add: parse_value_object)
    next
      case (Cons c' r')
      have "length (c' # r') \<le> length r" using skip_ws_length [of r] Cons by simp
      then have "2 * length (c' # r') + 1 < n" using a object by simp
      then have "parse_members n (c' # r') \<noteq> OutOfFuel" by (rule IHm)
      then show ?thesis using object Cons by (simp add: parse_value_object pmap_OutOfFuel)
    qed
  next
    case (array r)
    show ?thesis
    proof (cases "skip_ws r")
      case Nil
      then show ?thesis using array by (simp add: parse_value_array)
    next
      case (Cons c' r')
      have "length (c' # r') \<le> length r" using skip_ws_length [of r] Cons by simp
      then have "2 * length (c' # r') + 1 < n" using a array by simp
      then have "parse_elements n (c' # r') \<noteq> OutOfFuel" by (rule IHe)
      then show ?thesis using array Cons by (simp add: parse_value_array pmap_OutOfFuel)
    qed
  next
    case (string r)
    then show ?thesis by (simp add: parse_value_string pmap_OutOfFuel parse_chars_fuel)
  next
    case (number c r)
    then show ?thesis by (simp add: parse_value_number pmap_OutOfFuel parse_number_fuel)
  next
    case (true r)
    then show ?thesis by (simp add: parse_value_true parse_literal_fuel)
  next
    case (false r)
    then show ?thesis by (simp add: parse_value_false parse_literal_fuel)
  next
    case (null r)
    then show ?thesis by (simp add: parse_value_null parse_literal_fuel)
  next
    case (other c r)
    then show ?thesis by (simp add: parse_value_other)
  qed
  have e: "parse_elements (Suc n) cs \<noteq> OutOfFuel" if a: "2 * length cs + 1 < Suc n" for cs
  proof (cases "parse_value n (skip_ws cs)")
    case OutOfFuel
    have "2 * length (skip_ws cs) < n" using a skip_ws_length [of cs] by simp
    then show ?thesis using IHv OutOfFuel by blast
  next
    case Failed
    then show ?thesis by (simp add: parse_elements.simps)
  next
    case (Parsed v r1)
    have l1: "length r1 < length cs"
      using parse_shorter [of n] Parsed skip_ws_length [of cs] by fastforce
    show ?thesis
    proof (cases "skip_ws r1")
      case Nil
      then show ?thesis using Parsed by (simp add: parse_elements.simps)
    next
      case (Cons c r)
      have "length r < length r1" using skip_ws_length [of r1] Cons by simp
      then have "2 * length r + 1 < n" using l1 a by simp
      then have "parse_elements n r \<noteq> OutOfFuel" by (rule IHe)
      then show ?thesis using Parsed Cons by (simp add: parse_elements.simps pmap_OutOfFuel)
    qed
  qed
  have m: "parse_members (Suc n) cs \<noteq> OutOfFuel" if a: "2 * length cs + 1 < Suc n" for cs
  proof (cases "skip_ws cs")
    case Nil
    then show ?thesis by (simp add: parse_members.simps)
  next
    case q: (Cons q r)
    have l0: "length r < length cs" using skip_ws_length [of cs] q by simp
    show ?thesis
    proof (cases "parse_chars r")
      case OutOfFuel
      then show ?thesis using parse_chars_fuel by blast
    next
      case Failed
      then show ?thesis using q by (simp add: parse_members.simps)
    next
      case k: (Parsed k r1)
      have l1: "length r1 < length cs" using parse_chars_shorter [OF k] l0 by simp
      show ?thesis
      proof (cases "skip_ws r1")
        case Nil
        then show ?thesis using q k by (simp add: parse_members.simps)
      next
        case c2: (Cons colon r2)
        have l2: "length r2 < length cs" using skip_ws_length [of r1] c2 l1 by simp
        show ?thesis
        proof (cases "parse_value n (skip_ws r2)")
          case OutOfFuel
          have "2 * length (skip_ws r2) < n" using a l2 skip_ws_length [of r2] by simp
          then show ?thesis using IHv OutOfFuel by blast
        next
          case Failed
          then show ?thesis using q k c2 by (simp add: parse_members.simps)
        next
          case v3: (Parsed v r3)
          have l3: "length r3 < length cs"
            using parse_shorter [of n] v3 skip_ws_length [of r2] l2 by fastforce
          show ?thesis
          proof (cases "skip_ws r3")
            case Nil
            then show ?thesis using q k c2 v3 by (simp add: parse_members.simps)
          next
            case c4: (Cons c r4)
            have "length r4 < length cs" using skip_ws_length [of r3] c4 l3 by simp
            then have "2 * length r4 + 1 < n" using a by simp
            then have "parse_members n r4 \<noteq> OutOfFuel" by (rule IHm)
            then show ?thesis using q k c2 v3 c4
              by (simp add: parse_members.simps pmap_OutOfFuel)
          qed
        qed
      qed
    qed
  qed
  show ?case using v e m by blast
qed

lemma JSON_parse_fuel: "parse_value (Suc (2 * length data)) (skip_ws data) \<noteq> OutOfFuel"
proof -
  have "2 * length (skip_ws data) < Suc (2 * length data)"
    using skip_ws_length [of data] by simp
  then show ?thesis using parse_fuel [of "Suc (2 * length data)"] by blast
qed

subsection \<open>Parsing what JSON.stringify wrote\<close>



















section \<open>Properties of the format negotiation\<close>

lemma firstSupported_None:
  "firstSupported p ts = None \<longleftrightarrow> (\<forall>t \<in> set ts. \<not> p t)"
  by (induction ts) auto

lemma firstSupported_Some:
  "firstSupported p ts = Some t \<longleftrightarrow>
     (\<exists>i < length ts. ts ! i = t \<and> p t \<and> (\<forall>j < i. \<not> p (ts ! j)))"
proof (induction ts)
  case Nil
  show ?case by simp
next
  case (Cons a ts)
  show ?case
  proof (cases "p a")
    case True
    have "(\<exists>i < length (a # ts). (a # ts) ! i = t \<and> p t \<and> (\<forall>j < i. \<not> p ((a # ts) ! j)))
            \<longleftrightarrow> a = t"
    proof
      assume "\<exists>i < length (a # ts). (a # ts) ! i = t \<and> p t \<and> (\<forall>j < i. \<not> p ((a # ts) ! j))"
      then obtain i where i: "(a # ts) ! i = t" "\<forall>j < i. \<not> p ((a # ts) ! j)" by blast
      have "i = 0"
      proof (rule ccontr)
        assume "i \<noteq> 0"
        then have "\<not> p ((a # ts) ! 0)" using i(2) by blast
        then show False using True by simp
      qed
      then show "a = t" using i(1) by simp
    next
      assume "a = t"
      then have "(a # ts) ! 0 = t \<and> p t \<and> (\<forall>j < 0. \<not> p ((a # ts) ! j))"
        using True by simp
      then show "\<exists>i < length (a # ts). (a # ts) ! i = t \<and> p t \<and> (\<forall>j < i. \<not> p ((a # ts) ! j))"
        by (intro exI [of _ 0]) simp
    qed
    then show ?thesis using True by simp
  next
    case False
    have "(\<exists>i < length (a # ts). (a # ts) ! i = t \<and> p t \<and> (\<forall>j < i. \<not> p ((a # ts) ! j)))
            \<longleftrightarrow> (\<exists>i < length ts. ts ! i = t \<and> p t \<and> (\<forall>j < i. \<not> p (ts ! j)))"
      (is "?L \<longleftrightarrow> ?R")
    proof
      assume ?L
      then obtain i where i: "i < length (a # ts)" "(a # ts) ! i = t" "p t"
        "\<forall>j < i. \<not> p ((a # ts) ! j)" by blast
      have "i \<noteq> 0" using i(2,3) False by (cases i) auto
      then obtain k where k: "i = Suc k" by (cases i) auto
      have "\<forall>j < k. \<not> p (ts ! j)"
      proof (intro allI impI)
        fix j assume "j < k"
        then have "Suc j < i" using k by simp
        then have "\<not> p ((a # ts) ! Suc j)" using i(4) by blast
        then show "\<not> p (ts ! j)" by simp
      qed
      then show ?R using i k by (intro exI [of _ k]) simp
    next
      assume ?R
      then obtain k where k: "k < length ts" "ts ! k = t" "p t" "\<forall>j < k. \<not> p (ts ! j)"
        by blast
      have "\<forall>j < Suc k. \<not> p ((a # ts) ! j)"
      proof (intro allI impI)
        fix j assume "j < Suc k"
        then show "\<not> p ((a # ts) ! j)" using False k(4) by (cases j) auto
      qed
      then show ?L using k by (intro exI [of _ "Suc k"]) simp
    qed
    then show ?thesis using False Cons.IH by simp
  qed
qed

text \<open>
  C8. For every capability table, the negotiation returns the first supported entry of
  the preference list \<open>types\<close> (an entry that is supported and has no supported entry
  before it), and returns the fallback \<open>audio/webm\<close> when none of the four entries is
  supported.
\<close>

theorem getSupportedMimeType_first_supported:
  "((\<exists>t \<in> set types. isTypeSupported t) \<longrightarrow>
      (\<exists>i < length types. getSupportedMimeType isTypeSupported = types ! i
         \<and> isTypeSupported (types ! i) \<and> (\<forall>j < i. \<not> isTypeSupported (types ! j))))
   \<and> ((\<forall>t \<in> set types. \<not> isTypeSupported t) \<longrightarrow>
      getSupportedMimeType isTypeSupported = str ''audio/webm'')
   \<and> types = [str ''audio/webm;codecs=opus'', str ''audio/webm'', str ''audio/mp4'',
              str ''audio/wav'']"
proof (intro conjI impI)
  assume "\<exists>t \<in> set types. isTypeSupported t"
  then have "firstSupported isTypeSupported types \<noteq> None"
    by (simp add: firstSupported_None)
  then obtain t where t: "firstSupported isTypeSupported types = Some t" by blast
  then obtain i where "i < length types" "types ! i = t" "isTypeSupported t"
    "\<forall>j < i. \<not> isTypeSupported (types ! j)"
    using firstSupported_Some [of isTypeSupported types t] by blast
  then show "\<exists>i < length types. getSupportedMimeType isTypeSupported = types ! i
         \<and> isTypeSupported (types ! i) \<and> (\<forall>j < i. \<not> isTypeSupported (types ! j))"
    using t by (intro exI [of _ i]) (simp add: getSupportedMimeType_def)
next
  assume "\<forall>t \<in> set types. \<not> isTypeSupported t"
  then have "firstSupported isTypeSupported types = None"
    by (simp add: firstSupported_None)
  then show "getSupportedMimeType isTypeSupported = str ''audio/webm''"
    by (simp add: getSupportedMimeType_def)
next
  show "types = [str ''audio/webm;codecs=opus'', str ''audio/webm'', str ''audio/mp4'',
              str ''audio/wav'']"
    by (rule types_def)
qed

theorem getSupportedMimeType_first_supported_witness:
  "(\<exists>t \<in> set types. t = str ''audio/mp4'' \<or> t = str ''audio/wav'')
   \<and> getSupportedMimeType (\<lambda>t. t = str ''audio/mp4'' \<or> t = str ''audio/wav'')
        = str ''audio/mp4''
   \<and> getSupportedMimeType (\<lambda>t. False) = str ''audio/webm''"
proof -
  let ?p = "\<lambda>t. t = str ''audio/mp4'' \<or> t = str ''audio/wav''"
  have h: "\<exists>t \<in> set types. ?p t" by (auto simp: types_def)
  have n: "\<forall>t \<in> set types. \<not> (\<lambda>t. False) t" by simp
  have neq: "\<not> ?p (types ! 0)" "\<not> ?p (types ! 1)" "?p (types ! 2)"
    by (simp_all add: types_def str_def)
  from getSupportedMimeType_first_supported [of ?p] h
  obtain i where i: "i < length types" "getSupportedMimeType ?p = types ! i"
     "?p (types ! i)" "\<forall>j < i. \<not> ?p (types ! j)" by blast
  have "i = 2"
  proof -
    have "\<not> 2 < i" using i(4) neq(3) by blast
    moreover have "i \<noteq> 0" using i(3) neq(1) by (intro notI) simp
    moreover have "i \<noteq> 1" using i(3) neq(2) by (intro notI) simp
    ultimately show ?thesis by arith
  qed
  then have a: "getSupportedMimeType ?p = str ''audio/mp4''"
    using i(2) by (simp add: types_def)
  have b: "getSupportedMimeType (\<lambda>t. False) = str ''audio/webm''"
    using getSupportedMimeType_first_supported [of "\<lambda>t. False"] n by blast
  show ?thesis using h a b by blast
qed

section \<open>The page component: sending text\<close>

lemma connecting_page_eq:
  "connecting_page =
     \<lparr> messages = [], inputText = [], isProcessing = False,
       currentLanguage = str ''hinglish'', connectionStatus = connecting,
       conversationMode = str ''guidance_counselor'', socketRef = Some 0,
       sockets = [CONNECTING], wire = [], timers = [], readers = [], wsUrlValid = True,
       lifecycle = Mounted \<rparr>"
  by (simp add: connecting_page_def initial_def connectWebSocket_def)

lemma open_page_eq:
  "open_page =
     \<lparr> messages = [], inputText = [], isProcessing = False,
       currentLanguage = str ''hinglish'', connectionStatus = connected,
       conversationMode = str ''guidance_counselor'', socketRef = Some 0,
       sockets = [OPEN], wire = [], timers = [], readers = [], wsUrlValid = True,
       lifecycle = Mounted \<rparr>"
  by (simp add: open_page_def initial_def connectWebSocket_def onopen_def setState_def)

lemma str_neq: "str ''hinglish'' \<noteq> str ''hi''" "str ''hi'' \<noteq> str ''hinglish''"
  by (simp_all add: str_def)

lemma english_page_eq:
  "english_page =
     \<lparr> messages = [], inputText = [], isProcessing = False,
       currentLanguage = str ''en'', connectionStatus = connected,
       conversationMode = str ''guidance_counselor'', socketRef = Some 0,
       sockets = [OPEN], wire = [], timers = [], readers = [], wsUrlValid = True,
       lifecycle = Mounted \<rparr>"
  by (simp add: english_page_def open_page_eq toggleLanguage_def str_neq)

lemma socketOpen_examples:
  "socketOpen open_page" "socketOpen english_page" "\<not> socketOpen connecting_page"
  by (simp_all add: socketOpen_def open_page_eq english_page_eq connecting_page_eq)

lemma trim_examples:
  "trim (str ''hello'') = str ''hello''" "trim (str ''first'') = str ''first''"
  "trim (str ''second'') = str ''second''" "trim [32, 9, 10] = []"
  by (simp_all add: trim_def str_def isWhiteSpace_def)

lemma str_nonempty: "str ''hello'' \<noteq> []" "str ''first'' \<noteq> []" "str ''second'' \<noteq> []"
  by (simp_all add: str_def)

lemma socketOpen_socketRef: "socketOpen s \<Longrightarrow> socketRef s \<noteq> None"
  by (auto simp: socketOpen_def split: option.splits)

lemma socketOpen_update [simp]:
  "socketOpen (s\<lparr>messages := ms, inputText := i, isProcessing := b\<rparr>) = socketOpen s"
  by (simp add: socketOpen_def split: option.splits)

text \<open>
  C10. \<open>sendTextMessage\<close> called with a text that is empty or only white space, or
  while the socket reference is null, returns the state it was given: no message is
  appended, the input text and the processing flag are as before, nothing is sent.
\<close>

theorem sendTextMessage_blank_or_no_socket:
  "trim t = [] \<or> socketRef s = None \<Longrightarrow> sendTextMessage now s t = s"
  by (auto simp: sendTextMessage_def)

theorem sendTextMessage_blank_or_no_socket_witness:
  "trim [32, 9, 10] = [] \<and> sendTextMessage 7 open_page [32, 9, 10] = open_page
   \<and> socketRef (initial True) = None
   \<and> sendTextMessage 7 (initial True) (str ''hello'') = initial True"
proof -
  have 1: "trim [32, 9, 10] = []" by (simp add: trim_examples)
  have 2: "socketRef (initial True) = None" by (simp add: initial_def)
  show ?thesis
    using 1 2 sendTextMessage_blank_or_no_socket [of "[32, 9, 10]" open_page 7]
      sendTextMessage_blank_or_no_socket [of "str ''hello''" "initial True" 7]
    by simp
qed

lemma stringify_textEnvelope:
  "JSON_stringify (textEnvelope t l m) =
     str ''{'' @ quoteJSONString (str ''type'') @ str '':'' @ quoteJSONString (str ''text'')
     @ str '','' @ quoteJSONString (str ''data'') @ str '':'' @ quoteJSONString t
     @ str '','' @ quoteJSONString (str ''language'') @ str '':'' @ quoteJSONString l
     @ str '','' @ quoteJSONString (str ''conversationMode'') @ str '':'' @ quoteJSONString m
     @ str ''}''"
  by (simp add: JSON_stringify_def textEnvelope_def str_def)

lemma quote_examples:
  \<open>quoteJSONString (str ''type'') = str ''"type"''\<close>
  \<open>quoteJSONString (str ''data'') = str ''"data"''\<close>
  \<open>quoteJSONString (str ''language'') = str ''"language"''\<close>
  \<open>quoteJSONString (str ''conversationMode'') = str ''"conversationMode"''\<close>
  \<open>quoteJSONString (str ''text'') = str ''"text"''\<close>
  \<open>quoteJSONString (str ''audio'') = str ''"audio"''\<close>
  \<open>quoteJSONString (str ''hello'') = str ''"hello"''\<close>
  \<open>quoteJSONString (str ''en'') = str ''"en"''\<close>
  \<open>quoteJSONString (str ''guidance_counselor'') = str ''"guidance_counselor"''\<close>
  by (simp_all add: quoteJSONString_def quoteUnit_def str_def isLeadingSurrogate_def
      isTrailingSurrogate_def)

lemma hello_frame:
  \<open>JSON_stringify (textEnvelope (str ''hello'') (str ''en'') (str ''guidance_counselor'')) =
     str ''{"type":"text","data":"hello","language":"en","conversationMode":"guidance_counselor"}''\<close>
  unfolding stringify_textEnvelope quote_examples by (simp add: str_def)

text \<open>
  C6. A text submission (a text that is not blank) made while the socket is open sends
  exactly one frame, the JSON text of the envelope with the members \<open>type\<close>,
  \<open>data\<close>, \<open>language\<close> and \<open>conversationMode\<close> in this order;
  for \<open>hello\<close>, \<open>en\<close> and \<open>guidance_counselor\<close> it is the text of
  the scenario.
\<close>

theorem sendTextMessage_wire:
  \<open>trim t \<noteq> [] \<Longrightarrow> socketOpen s \<Longrightarrow>
   wire (sendTextMessage now s t) =
     wire s @ [JSON_stringify (textEnvelope t (currentLanguage s) (conversationMode s))]
   \<and> JSON_stringify (textEnvelope t l m) =
       str ''{"type":"text","data":'' @ quoteJSONString t
       @ str '',"language":'' @ quoteJSONString l
       @ str '',"conversationMode":'' @ quoteJSONString m @ str ''}''
   \<and> JSON_stringify (textEnvelope (str ''hello'') (str ''en'') (str ''guidance_counselor'')) =
       str ''{"type":"text","data":"hello","language":"en","conversationMode":"guidance_counselor"}''\<close>
proof (intro conjI)
  assume a: "trim t \<noteq> []" "socketOpen s"
  then have "socketRef s \<noteq> None" by (simp add: socketOpen_socketRef)
  then show "wire (sendTextMessage now s t) =
     wire s @ [JSON_stringify (textEnvelope t (currentLanguage s) (conversationMode s))]"
    using a by (simp add: sendTextMessage_def Let_def send_def)
next
  show \<open>JSON_stringify (textEnvelope t l m) =
       str ''{"type":"text","data":'' @ quoteJSONString t
       @ str '',"language":'' @ quoteJSONString l
       @ str '',"conversationMode":'' @ quoteJSONString m @ str ''}''\<close>
    unfolding stringify_textEnvelope quote_examples by (simp add: str_def)
next
  show \<open>JSON_stringify (textEnvelope (str ''hello'') (str ''en'') (str ''guidance_counselor'')) =
       str ''{"type":"text","data":"hello","language":"en","conversationMode":"guidance_counselor"}''\<close>
    by (rule hello_frame)
qed

theorem sendTextMessage_wire_witness:
  \<open>trim (str ''hello'') \<noteq> [] \<and> socketOpen english_page
   \<and> wire (sendTextMessage 7 english_page (str ''hello'')) =
       [str ''{"type":"text","data":"hello","language":"en","conversationMode":"guidance_counselor"}'']\<close>
proof -
  have 1: "trim (str ''hello'') \<noteq> []" by (simp add: trim_examples str_nonempty)
  have 2: "socketOpen english_page" by (rule socketOpen_examples)
  have 3: "currentLanguage english_page = str ''en''"
    "conversationMode english_page = str ''guidance_counselor''" "wire english_page = []"
    by (simp_all add: english_page_eq)
  show ?thesis
    using 1 2 sendTextMessage_wire [OF 1 2, of 7 "[]" "[]"] by (simp add: 3)
qed

text \<open>
  C4, as stated, fails: with the socket still connecting, \<open>sendTextMessage\<close> sends
  nothing, but the message it appends is the user's, not an error message, and the
  processing flag is set.
\<close>

theorem sendTextMessage_not_connected_counterexample:
  "\<not> socketOpen connecting_page
   \<and> wire (sendTextMessage 7 connecting_page (str ''hello'')) = []
   \<and> messages (sendTextMessage 7 connecting_page (str ''hello'')) =
       [UserMessage 7 (str ''hello'') (str ''hinglish'')]
   \<and> isProcessing (sendTextMessage 7 connecting_page (str ''hello''))
   \<and> \<not> (\<not> socketOpen connecting_page \<longrightarrow>
         wire (sendTextMessage 7 connecting_page (str ''hello'')) = wire connecting_page
         \<and> (\<exists>n v. ErrorMessage n v \<in> set (messages (sendTextMessage 7 connecting_page (str ''hello''))))
         \<and> \<not> isProcessing (sendTextMessage 7 connecting_page (str ''hello'')))"
proof -
  have s: "sendTextMessage 7 connecting_page (str ''hello'') =
      connecting_page\<lparr>messages := [UserMessage 7 (str ''hello'') (str ''hinglish'')],
        inputText := [], isProcessing := True\<rparr>"
    by (simp add: sendTextMessage_def Let_def trim_examples str_nonempty connecting_page_eq
        socketOpen_def)
  show ?thesis unfolding s by (simp add: connecting_page_eq socketOpen_def)
qed

text \<open>
  C4, amended. When the socket is not open, \<open>sendTextMessage\<close> sends nothing; it
  appends the user message (and no error message) when the text is not blank and the
  socket reference is set, and appends nothing otherwise.
\<close>

theorem sendTextMessage_not_open:
  "\<not> socketOpen s \<Longrightarrow>
   wire (sendTextMessage now s t) = wire s
   \<and> messages (sendTextMessage now s t) =
       (if trim t = [] \<or> socketRef s = None then messages s
        else messages s @ [UserMessage now t (currentLanguage s)])"
  by (simp add: sendTextMessage_def Let_def)

theorem sendTextMessage_not_open_witness:
  "\<not> socketOpen connecting_page
   \<and> wire (sendTextMessage 7 connecting_page (str ''hello'')) = []
   \<and> messages (sendTextMessage 7 connecting_page (str ''hello'')) =
       [UserMessage 7 (str ''hello'') (str ''hinglish'')]"
proof -
  have 1: "\<not> socketOpen connecting_page" by (rule socketOpen_examples)
  have 2: "socketRef connecting_page \<noteq> None" "messages connecting_page = []"
    "wire connecting_page = []" "currentLanguage connecting_page = str ''hinglish''"
    by (simp_all add: connecting_page_eq)
  show ?thesis
    using 1 sendTextMessage_not_open [OF 1, of 7 "str ''hello''"]
    by (simp add: trim_examples str_nonempty 2)
qed

section \<open>The page component: the transcript\<close>

lemma messages_handleSocketMessage:
  "handleSocketMessage now s data = Inr s' \<Longrightarrow> \<exists>ms. messages s' = messages s @ ms"
  by (auto simp: handleSocketMessage_def split: sum.splits if_splits)

lemma messages_sendTextMessage:
  "messages (sendTextMessage now s t) =
     (if trim t = [] \<or> socketRef s = None then messages s
      else messages s @ [UserMessage now t (currentLanguage s)])"
  by (simp add: sendTextMessage_def Let_def send_def)

lemma messages_sendAudioMessage: "messages (sendAudioMessage l m s b) = messages s"
  by (simp add: sendAudioMessage_def split: option.splits)

lemma messages_onloadend: "onloadend s l m r = Inr s' \<Longrightarrow> messages s' = messages s"
  by (auto simp: onloadend_def Let_def send_def split: option.splits if_splits)

lemma messages_connectWebSocket: "messages (connectWebSocket s) = messages s"
  by (simp add: connectWebSocket_def Let_def)

lemma messages_cleanup: "messages (cleanup s) = messages s"
  by (simp add: cleanup_def close_def split: option.splits)

lemma messages_setState:
  "\<exists>ms. messages s' = messages s @ ms \<Longrightarrow> \<exists>ms. messages (setState s s') = messages s @ ms"
  by (simp add: setState_def)

lemma messages_catch_handleSocketMessage:
  "\<exists>ms. messages (catch s (handleSocketMessage now s data)) = messages s @ ms"
proof (cases "handleSocketMessage now s data")
  case (Inl a)
  then show ?thesis by (simp add: catch_def)
next
  case (Inr s')
  then show ?thesis using messages_handleSocketMessage [OF Inr] by (simp add: catch_def)
qed

lemma messages_step: "\<exists>ms. messages (step now e s) = messages s @ ms"
proof (cases e)
  case Mount
  then show ?thesis by (simp add: messages_connectWebSocket)
next
  case Unmount
  then show ?thesis by (simp add: messages_cleanup)
next
  case (SocketOpened i)
  have "\<exists>ms. messages (setState s (onopen (s\<lparr>sockets := (sockets s)[i := OPEN]\<rparr>))) =
      messages s @ ms"
    by (rule messages_setState) (simp add: onopen_def)
  then show ?thesis using SocketOpened by simp
next
  case (SocketClosed i)
  have "\<exists>ms. messages (setState s (onclose (s\<lparr>sockets := (sockets s)[i := CLOSED]\<rparr>))) =
      messages s @ ms"
    by (rule messages_setState) (simp add: onclose_def)
  then show ?thesis using SocketClosed by simp
next
  case (SocketError i)
  have "\<exists>ms. messages (setState s (onerror s)) = messages s @ ms"
    by (rule messages_setState) (simp add: onerror_def)
  then show ?thesis using SocketError by simp
next
  case (SocketMessage i data)
  have "\<exists>ms. messages (setState s (catch s (handleSocketMessage now s data))) =
      messages s @ ms"
    by (rule messages_setState) (rule messages_catch_handleSocketMessage)
  then show ?thesis using SocketMessage by simp
next
  case TimerFired
  show ?thesis
  proof (cases "timers s")
    case Nil
    then show ?thesis using TimerFired by simp
  next
    case (Cons d ds)
    have "\<exists>ms. messages (setState s (connectWebSocket (s\<lparr>timers := ds\<rparr>))) =
        messages s @ ms"
      by (rule messages_setState) (simp add: messages_connectWebSocket)
    then show ?thesis using TimerFired Cons by simp
  qed
next
  case (SetInputText v)
  then show ?thesis by simp
next
  case EnterKey
  then show ?thesis by (simp add: handleSubmit_def messages_sendTextMessage)
next
  case SendButton
  then show ?thesis by (simp add: handleSubmit_def messages_sendTextMessage)
next
  case ToggleLanguage
  then show ?thesis by (simp add: toggleLanguage_def)
next
  case (SetConversationMode m)
  then show ?thesis by simp
next
  case RecorderButton
  then show ?thesis by (simp add: handleSubmit_def messages_sendTextMessage)
next
  case (RecorderStopped b l m)
  have "\<exists>ms. messages (setState s (handleRecordingComplete l m s b)) = messages s @ ms"
    by (rule messages_setState)
      (simp add: handleRecordingComplete_def messages_sendAudioMessage)
  then show ?thesis using RecorderStopped by simp
next
  case (LoadEnd ok)
  show ?thesis
  proof (cases "readers s")
    case Nil
    then show ?thesis using LoadEnd by simp
  next
    case (Cons r rs)
    obtain b l m where r: "r = (b, l, m)" by (cases r) auto
    let ?s = "s\<lparr>readers := rs\<rparr>"
    show ?thesis
    proof (cases "onloadend ?s l m (if ok then Some (dataURL b) else None)")
      case (Inl a)
      then show ?thesis using LoadEnd Cons r by (simp add: catch_def)
    next
      case (Inr s')
      then show ?thesis using LoadEnd Cons r messages_onloadend [OF Inr]
        by (simp add: catch_def)
    qed
  qed
qed

lemma messages_run: "\<exists>ms. messages (run es s) = messages s @ ms"
proof (induction es arbitrary: s)
  case Nil
  show ?case by simp
next
  case (Cons a es)
  obtain now e where a: "a = (now, e)" by (cases a) auto
  obtain ms1 where 1: "messages (step now e s) = messages s @ ms1"
    using messages_step by blast
  obtain ms2 where 2: "messages (run es (step now e s)) = messages (step now e s) @ ms2"
    using Cons.IH by blast
  show ?case using a 1 2 by simp
qed


lemma open_page_fields:
  "messages open_page = []" "wire open_page = []" "readers open_page = []"
  "socketRef open_page = Some 0" "sockets open_page = [OPEN]" "isProcessing open_page = False"
  "lifecycle open_page = Mounted" "timers open_page = []" "wsUrlValid open_page"
  "inputText open_page = []"
  "currentLanguage open_page = str ''hinglish''"
  "conversationMode open_page = str ''guidance_counselor''"
  by (simp_all add: open_page_eq)

text \<open>
  C2, as stated, fails for audio: an audio submission on an open socket sets the
  processing flag and, when the read ends, sends its frame, but no user message is ever
  put on the transcript.
\<close>

theorem audio_submission_counterexample:
  "socketOpen open_page
   \<and> messages (sendAudioMessage (str ''hinglish'') (str ''guidance_counselor'') open_page
        (Some clip)) = []
   \<and> isProcessing (sendAudioMessage (str ''hinglish'') (str ''guidance_counselor'') open_page
        (Some clip))
   \<and> messages (run [(2, RecorderStopped clip (str ''hinglish'') (str ''guidance_counselor'')),
                     (3, LoadEnd True)] open_page) = []
   \<and> length (wire (run [(2, RecorderStopped clip (str ''hinglish'') (str ''guidance_counselor'')),
                          (3, LoadEnd True)] open_page)) = 1
   \<and> \<not> (\<exists>n t l. UserMessage n t l
          \<in> set (messages (run [(2, RecorderStopped clip (str ''hinglish'')
                                     (str ''guidance_counselor'')),
                                 (3, LoadEnd True)] open_page)))"
proof -
  have a: "sendAudioMessage (str ''hinglish'') (str ''guidance_counselor'') open_page (Some clip) =
      open_page\<lparr>isProcessing := True,
        readers := [(clip, str ''hinglish'', str ''guidance_counselor'')]\<rparr>"
    by (simp add: sendAudioMessage_def open_page_fields)
  have o: "socketOpen (open_page\<lparr>isProcessing := True, readers := []\<rparr>)"
    by (simp add: socketOpen_def open_page_fields)
  have r: "run [(2, RecorderStopped clip (str ''hinglish'') (str ''guidance_counselor'')),
                (3, LoadEnd True)] open_page =
      send (JSON_stringify (audioEnvelope (at_index (split 44 (dataURL clip)) 1)
          (str ''hinglish'') (str ''guidance_counselor'')))
        (open_page\<lparr>isProcessing := True, readers := []\<rparr>)"
    using o
    by (simp add: handleRecordingComplete_def a open_page_fields onloadend_def catch_def
        setState_def)
  show ?thesis
    unfolding r a by (simp add: send_def open_page_fields socketOpen_examples)
qed

text \<open>
  C2, amended. A text submission that passes the guard appends its user message at
  once, whether or not the socket is open; an audio submission appends no message. The
  transcript only grows at its end along every run, so the user message of a text
  submission stands before every message appended later (its response among them) and
  after every earlier one.
\<close>

theorem transcript_append_only:
  "messages (sendTextMessage now s t) =
     (if trim t = [] \<or> socketRef s = None then messages s
      else messages s @ [UserMessage now t (currentLanguage s)])
   \<and> messages (sendAudioMessage l m s b) = messages s
   \<and> (\<exists>ms. messages (run es s) = messages s @ ms)
   \<and> (trim t \<noteq> [] \<and> socketRef s \<noteq> None \<longrightarrow>
        (\<exists>ms. messages (run es (sendTextMessage now s t)) =
           messages s @ UserMessage now t (currentLanguage s) # ms))"
proof (intro conjI impI)
  show "messages (sendTextMessage now s t) =
     (if trim t = [] \<or> socketRef s = None then messages s
      else messages s @ [UserMessage now t (currentLanguage s)])"
    by (rule messages_sendTextMessage)
  show "messages (sendAudioMessage l m s b) = messages s"
    by (rule messages_sendAudioMessage)
  show "\<exists>ms. messages (run es s) = messages s @ ms"
    by (rule messages_run)
next
  assume a: "trim t \<noteq> [] \<and> socketRef s \<noteq> None"
  obtain ms where "messages (run es (sendTextMessage now s t)) =
      messages (sendTextMessage now s t) @ ms"
    using messages_run by blast
  then have "messages (run es (sendTextMessage now s t)) =
      messages s @ UserMessage now t (currentLanguage s) # ms"
    using a by (simp add: messages_sendTextMessage)
  then show "\<exists>ms. messages (run es (sendTextMessage now s t)) =
           messages s @ UserMessage now t (currentLanguage s) # ms"
    by blast
qed

lemma hi_there_reply:
  \<open>handleSocketMessage 4 s
     (str ''{"type":"text_response","response_text":"Hi there","detected_language":"en"}'') =
   Inr (s\<lparr>messages := messages s @
          [AiMessage 4 (Some (JString (str ''Hi there''))) (Some (JString (str ''en''))) None None],
        isProcessing := False\<rparr>)\<close>
  by code_simp


theorem transcript_append_only_witness:
  \<open>trim (str ''hello'') \<noteq> [] \<and> socketRef english_page \<noteq> None
   \<and> (\<exists>ms. messages
          (run [(4, SocketMessage 0
             (str ''{"type":"text_response","response_text":"Hi there","detected_language":"en"}''))]
            (sendTextMessage 3 english_page (str ''hello''))) =
        UserMessage 3 (str ''hello'') (str ''en'') # ms)\<close>
proof -
  have 1: "trim (str ''hello'') \<noteq> []" by (simp add: trim_examples str_nonempty)
  have 2: "socketRef english_page \<noteq> None" "messages english_page = []"
    "currentLanguage english_page = str ''en''"
    by (simp_all add: english_page_eq)
  show ?thesis
    using 1 2(1)
      transcript_append_only [of 3 english_page "str ''hello''" undefined undefined undefined
        \<open>[(4, SocketMessage 0
          (str ''{"type":"text_response","response_text":"Hi there","detected_language":"en"}''))]\<close>]
    by (simp add: 2)
qed

text \<open>
  The scenario of the specification: \<open>hello\<close> in English, answered by
  \<open>Hi there\<close>.
\<close>

lemma scenario_transcript:
  \<open>messages
     (run [(2, SetInputText (str ''hello'')), (3, EnterKey),
           (4, SocketMessage 0
             (str ''{"type":"text_response","response_text":"Hi there","detected_language":"en"}''))]
        english_page) =
   [UserMessage 3 (str ''hello'') (str ''en''),
    AiMessage 4 (Some (JString (str ''Hi there''))) (Some (JString (str ''en''))) None None]\<close>
proof -
  have 1: "step 3 EnterKey (step 2 (SetInputText (str ''hello'')) english_page) =
      send (JSON_stringify (textEnvelope (str ''hello'') (str ''en'') (str ''guidance_counselor'')))
        (english_page\<lparr>messages := [UserMessage 3 (str ''hello'') (str ''en'')],
           inputText := [], isProcessing := True\<rparr>)"
    by (simp add: handleSubmit_def sendTextMessage_def Let_def trim_examples str_nonempty
        english_page_eq socketOpen_def)
  have 2: "sockets english_page = [OPEN]" "messages english_page = []"
    "lifecycle english_page = Mounted"
    by (simp_all add: english_page_eq)
  show ?thesis
    unfolding run.simps 1 by (simp add: send_def 2 catch_def hi_there_reply setState_def)
qed

section \<open>The page component: single flight\<close>

lemma flight_sendTextMessage:
  assumes "\<not> isProcessing s" "in_flight s \<le> k"
  shows "in_flight (sendTextMessage now s t)
           \<le> k + (if isProcessing (sendTextMessage now s t) then 1 else 0)"
  using assms by (simp add: in_flight_def sendTextMessage_def Let_def send_def)

lemma flight_sendAudioMessage:
  assumes "\<not> isProcessing s" "in_flight s \<le> k"
  shows "in_flight (sendAudioMessage l m s b)
           \<le> k + (if isProcessing (sendAudioMessage l m s b) then 1 else 0)"
  using assms by (simp add: in_flight_def sendAudioMessage_def split: option.splits)

lemma flight_handleSocketMessage:
  "handleSocketMessage now s data = Inr s' \<Longrightarrow> in_flight s' = in_flight s"
  by (auto simp: in_flight_def handleSocketMessage_def split: sum.splits if_splits)

lemma flight_onloadend:
  "onloadend s l m r = Inr s' \<Longrightarrow>
   in_flight s' \<le> Suc (in_flight s) \<and> isProcessing s' = isProcessing s"
  by (auto simp: in_flight_def onloadend_def Let_def send_def split: option.splits if_splits)

lemma flight_connectWebSocket:
  "in_flight (connectWebSocket s) = in_flight s"
  "isProcessing (connectWebSocket s) = isProcessing s"
  by (simp_all add: in_flight_def connectWebSocket_def Let_def)

lemma flight_cleanup:
  "in_flight (cleanup s) = in_flight s" "isProcessing (cleanup s) = isProcessing s"
  by (simp_all add: in_flight_def cleanup_def close_def split: option.splits)

lemma flight_setState:
  "in_flight (setState s s') = in_flight s'"
  "isProcessing (setState s s') = (if lifecycle s = Unmounted then isProcessing s else isProcessing s')"
  by (simp_all add: in_flight_def setState_def)

text \<open>
  The invariant: the frames sent and the reads pending are at most the messages answered
  so far, plus one while the processing flag is set.
\<close>

lemma flight_step:
  assumes "isRecorderStopped e \<longrightarrow> lifecycle s \<noteq> Unmounted \<and> \<not> isProcessing s"
    and "in_flight s \<le> k + (if isProcessing s then 1 else 0)"
  shows "in_flight (step now e s)
           \<le> k + (if answers now e s then 1 else 0)
               + (if isProcessing (step now e s) then 1 else 0)"
proof (cases e)
  case Mount
  then show ?thesis using assms(2)
    by (auto simp: flight_connectWebSocket [unfolded in_flight_def] in_flight_def
        split: if_splits)
next
  case Unmount
  then show ?thesis using assms(2)
    by (auto simp: flight_cleanup [unfolded in_flight_def] in_flight_def split: if_splits)
next
  case (SocketOpened i)
  then show ?thesis using assms(2)
    by (auto simp: flight_setState [unfolded in_flight_def] in_flight_def onopen_def split: if_splits)
next
  case (SocketClosed i)
  then show ?thesis using assms(2)
    by (auto simp: flight_setState [unfolded in_flight_def] in_flight_def onclose_def split: if_splits)
next
  case (SocketError i)
  then show ?thesis using assms(2)
    by (auto simp: flight_setState [unfolded in_flight_def] in_flight_def onerror_def split: if_splits)
next
  case (SocketMessage i data)
  have le: "in_flight s \<le> Suc k" using assms(2) by (simp split: if_splits)
  show ?thesis
  proof (cases "i < length (sockets s) \<and> sockets s ! i = OPEN")
    case False
    then have "step now e s = s" "\<not> answers now e s" using SocketMessage by auto
    then show ?thesis using assms(2) by simp
  next
    case True
    show ?thesis
    proof (cases "handleSocketMessage now s data")
      case (Inl a)
      then have "step now e s = setState s s" "\<not> answers now e s"
        using SocketMessage True by (simp_all add: catch_def)
      then show ?thesis using assms(2) by (simp add: flight_setState)
    next
      case (Inr s')
      then have "step now e s = setState s s'" "answers now e s"
        using SocketMessage True by (simp_all add: catch_def)
      moreover have "in_flight s' = in_flight s" using Inr by (rule flight_handleSocketMessage)
      ultimately show ?thesis using le by (simp add: flight_setState)
    qed
  qed
next
  case TimerFired
  then show ?thesis using assms(2)
    by (auto simp: flight_setState [unfolded in_flight_def]
        flight_connectWebSocket [unfolded in_flight_def] in_flight_def
        split: list.splits if_splits)
next
  case (SetInputText v)
  then show ?thesis using assms(2) by (auto simp: in_flight_def split: if_splits)
next
  case EnterKey
  show ?thesis
  proof (cases "lifecycle s = Unmounted \<or> isProcessing s")
    case True
    then have "step now e s = s" using EnterKey by auto
    then show ?thesis using EnterKey assms(2) by simp
  next
    case False
    then have np: "\<not> isProcessing s" and st: "step now e s = sendTextMessage now s (inputText s)"
      using EnterKey by (simp_all add: handleSubmit_def)
    have "in_flight s \<le> k" using assms(2) np by simp
    then show ?thesis using flight_sendTextMessage [OF np, of k now "inputText s"] st EnterKey
      by simp
  qed
next
  case SendButton
  show ?thesis
  proof (cases "lifecycle s = Unmounted \<or> trim (inputText s) = [] \<or> isProcessing s")
    case True
    then have "step now e s = s" using SendButton by auto
    then show ?thesis using SendButton assms(2) by simp
  next
    case False
    then have np: "\<not> isProcessing s" and st: "step now e s = sendTextMessage now s (inputText s)"
      using SendButton by (simp_all add: handleSubmit_def)
    have "in_flight s \<le> k" using assms(2) np by simp
    then show ?thesis using flight_sendTextMessage [OF np, of k now "inputText s"] st SendButton
      by simp
  qed
next
  case ToggleLanguage
  then show ?thesis using assms(2)
    by (auto simp: in_flight_def toggleLanguage_def split: if_splits)
next
  case (SetConversationMode m)
  then show ?thesis using assms(2) by (auto simp: in_flight_def split: if_splits)
next
  case RecorderButton
  show ?thesis
  proof (cases "lifecycle s = Unmounted \<or> isProcessing s")
    case True
    then have "step now e s = s" using RecorderButton by auto
    then show ?thesis using RecorderButton assms(2) by simp
  next
    case False
    then have np: "\<not> isProcessing s" and st: "step now e s = sendTextMessage now s (inputText s)"
      using RecorderButton by (simp_all add: handleSubmit_def)
    have "in_flight s \<le> k" using assms(2) np by simp
    then show ?thesis
      using flight_sendTextMessage [OF np, of k now "inputText s"] st RecorderButton by simp
  qed
next
  case (RecorderStopped b l m)
  then have np: "\<not> isProcessing s" and mo: "lifecycle s \<noteq> Unmounted" using assms(1) by simp_all
  have st: "step now e s = sendAudioMessage l m s (Some b)"
    using RecorderStopped mo by (simp add: setState_def handleRecordingComplete_def)
  have "in_flight s \<le> k" using assms(2) np by simp
  then show ?thesis
    using flight_sendAudioMessage [OF np, of k l m "Some b"] st RecorderStopped by simp
next
  case (LoadEnd ok)
  show ?thesis
  proof (cases "readers s")
    case Nil
    then show ?thesis using LoadEnd assms(2) by simp
  next
    case (Cons r rs)
    obtain b l m where r: "r = (b, l, m)" by (cases r) auto
    let ?s = "s\<lparr>readers := rs\<rparr>"
    have s: "Suc (in_flight ?s) = in_flight s" "isProcessing ?s = isProcessing s"
      using Cons by (simp_all add: in_flight_def)
    show ?thesis
    proof (cases "onloadend ?s l m (if ok then Some (dataURL b) else None)")
      case (Inl a)
      then have "step now e s = ?s" using LoadEnd Cons r by (simp add: catch_def)
      then show ?thesis using s assms(2) LoadEnd by (simp split: if_splits)
    next
      case (Inr s')
      then have "step now e s = s'" using LoadEnd Cons r by (simp add: catch_def)
      moreover have "in_flight s' \<le> Suc (in_flight ?s)" "isProcessing s' = isProcessing ?s"
        using flight_onloadend [OF Inr] by simp_all
      ultimately show ?thesis using s assms(2) LoadEnd by (simp split: if_splits)
    qed
  qed
qed

lemma flight_run:
  assumes "handoversIdle es s"
    and "in_flight s \<le> k + (if isProcessing s then 1 else 0)"
  shows "in_flight (run es s)
           \<le> k + answered es s + (if isProcessing (run es s) then 1 else 0)"
  using assms
proof (induction es arbitrary: s k)
  case Nil
  then show ?case by simp
next
  case (Cons a es)
  obtain now e where a: "a = (now, e)" by (cases a) auto
  have h: "isRecorderStopped e \<longrightarrow> lifecycle s \<noteq> Unmounted \<and> \<not> isProcessing s"
    and hs: "handoversIdle es (step now e s)"
    using Cons.prems(1) a by (simp_all split: if_splits)
  have 1: "in_flight (step now e s)
      \<le> (k + (if answers now e s then 1 else 0))
          + (if isProcessing (step now e s) then 1 else 0)"
    using flight_step [OF h Cons.prems(2)] by simp
  show ?case using Cons.IH [OF hs 1] a by (simp split: if_splits)
qed

lemma pending_page_eq:
  "pending_page =
     send (JSON_stringify (textEnvelope (str ''first'') (str ''hinglish'') (str ''guidance_counselor'')))
       (open_page\<lparr>messages := [UserMessage 3 (str ''first'') (str ''hinglish'')],
          inputText := [], isProcessing := True\<rparr>)"
  by (simp add: pending_page_def handleSubmit_def sendTextMessage_def Let_def trim_examples
      str_nonempty open_page_fields socketOpen_def)

lemma pending_page_fields:
  "messages pending_page = [UserMessage 3 (str ''first'') (str ''hinglish'')]"
  "length (wire pending_page) = 1" "readers pending_page = []"
  "socketRef pending_page = Some 0" "sockets pending_page = [OPEN]" "isProcessing pending_page"
  "lifecycle pending_page = Mounted" "inputText pending_page = []"
  "currentLanguage pending_page = str ''hinglish''"
  "conversationMode pending_page = str ''guidance_counselor''"
  by (simp_all add: pending_page_eq send_def open_page_fields)

lemma socketOpen_pending: "socketOpen pending_page"
  by (simp add: socketOpen_def pending_page_fields)

lemma recorder_button_submits:
  "run [(1, RecorderButton), (2, SetInputText (str ''first'')), (3, RecorderButton)] open_page
     = pending_page"
proof -
  have 1: "step 1 RecorderButton open_page = open_page"
    by (simp add: open_page_fields handleSubmit_def sendTextMessage_def trim_def)
  have 2: "step 3 RecorderButton (step 2 (SetInputText (str ''first'')) open_page)
             = step 3 EnterKey (step 2 (SetInputText (str ''first'')) open_page)"
    by simp
  show ?thesis unfolding run.simps 1 2 pending_page_def by simp
qed

lemma audio_while_pending:
  "run [(4, RecorderStopped clip (str ''hinglish'') (str ''guidance_counselor'')),
        (5, LoadEnd True)] pending_page =
      send (JSON_stringify (audioEnvelope (at_index (split 44 (dataURL clip)) 1)
          (str ''hinglish'') (str ''guidance_counselor'')))
        (pending_page\<lparr>isProcessing := True, readers := []\<rparr>)"
proof -
  have a: "sendAudioMessage (str ''hinglish'') (str ''guidance_counselor'') pending_page (Some clip) =
      pending_page\<lparr>isProcessing := True,
        readers := [(clip, str ''hinglish'', str ''guidance_counselor'')]\<rparr>"
    by (simp add: sendAudioMessage_def pending_page_fields)
  have o: "socketOpen (pending_page\<lparr>isProcessing := True, readers := []\<rparr>)"
    by (simp add: socketOpen_def pending_page_fields)
  show ?thesis
    using o
    by (simp add: handleRecordingComplete_def a onloadend_def catch_def setState_def
        pending_page_fields)
qed

text \<open>
  C1, as stated, fails: with a text turn pending (the processing flag set, one frame
  sent), \<open>sendTextMessage\<close> appends a second user message and sends a second
  frame, and \<open>sendAudioMessage\<close> starts a read whose end sends a second frame.
  Neither function looks at the flag, and neither has a Busy result. At the form the
  recorder's button submits the form as well: with text typed while recording, the click
  that stops the recording sends the text, and the clip handed over afterwards is sent
  too, two frames with no answer in between.
\<close>

theorem submit_while_pending_counterexample:
  "isProcessing pending_page \<and> length (wire pending_page) = 1
   \<and> messages (sendTextMessage 4 pending_page (str ''second'')) =
       messages pending_page @ [UserMessage 4 (str ''second'') (str ''hinglish'')]
   \<and> length (wire (sendTextMessage 4 pending_page (str ''second''))) = 2
   \<and> readers (sendAudioMessage (str ''hinglish'') (str ''guidance_counselor'') pending_page
         (Some clip)) =
       [(clip, str ''hinglish'', str ''guidance_counselor'')]
   \<and> length (wire (run [(4, RecorderStopped clip (str ''hinglish'') (str ''guidance_counselor'')),
         (5, LoadEnd True)] pending_page)) = 2
   \<and> length (wire (run [(1, RecorderButton), (2, SetInputText (str ''first'')),
         (3, RecorderButton),
         (4, RecorderStopped clip (str ''hinglish'') (str ''guidance_counselor'')),
         (5, LoadEnd True)] open_page)) = 2"
proof -
  have t: "sendTextMessage 4 pending_page (str ''second'') =
      send (JSON_stringify (textEnvelope (str ''second'') (str ''hinglish'') (str ''guidance_counselor'')))
        (pending_page\<lparr>messages := messages pending_page @
            [UserMessage 4 (str ''second'') (str ''hinglish'')],
          inputText := [], isProcessing := True\<rparr>)"
    using socketOpen_pending
    by (simp add: sendTextMessage_def Let_def trim_examples str_nonempty pending_page_fields)
  have a: "sendAudioMessage (str ''hinglish'') (str ''guidance_counselor'') pending_page (Some clip) =
      pending_page\<lparr>isProcessing := True,
        readers := [(clip, str ''hinglish'', str ''guidance_counselor'')]\<rparr>"
    by (simp add: sendAudioMessage_def pending_page_fields)
  have u: "run [(1, RecorderButton), (2, SetInputText (str ''first'')), (3, RecorderButton),
         (4, RecorderStopped clip (str ''hinglish'') (str ''guidance_counselor'')),
         (5, LoadEnd True)] open_page
      = run [(4, RecorderStopped clip (str ''hinglish'') (str ''guidance_counselor'')),
         (5, LoadEnd True)] (run [(1, RecorderButton), (2, SetInputText (str ''first'')),
         (3, RecorderButton)] open_page)"
    by (simp only: run.simps)
  show ?thesis
    unfolding u recorder_button_submits t a audio_while_pending
    by (simp add: send_def pending_page_fields)
qed

text \<open>
  C1, amended. Neither function has a Busy result or looks at the processing flag; the
  gate is the form: while the flag is set, the Enter key, the send button and the
  recorder's button change nothing (no message, no frame). Along every run from the
  initial state in which every clip is handed over while the component is mounted and
  the flag is clear, the frames sent plus the reads pending exceed the server messages
  handled by at most one.
\<close>

theorem single_flight_when_handed_over_idle:
  "(isProcessing s \<longrightarrow>
      step now EnterKey s = s \<and> step now SendButton s = s \<and> step now RecorderButton s = s)
   \<and> (handoversIdle es (initial v) \<longrightarrow>
        in_flight (run es (initial v)) \<le> Suc (answered es (initial v)))"
proof (intro conjI impI)
  assume "isProcessing s"
  then show "step now EnterKey s = s" "step now SendButton s = s"
    "step now RecorderButton s = s"
    by simp_all
next
  assume a: "handoversIdle es (initial v)"
  have 0: "in_flight (initial v) \<le> 0 + (if isProcessing (initial v) then 1 else 0)"
    by (simp add: in_flight_def initial_def)
  show "in_flight (run es (initial v)) \<le> Suc (answered es (initial v))"
    using flight_run [OF a 0] by (simp split: if_splits)
qed

theorem single_flight_when_handed_over_idle_witness:
  \<open>isProcessing pending_page \<and> step 4 EnterKey pending_page = pending_page
   \<and> step 4 SendButton pending_page = pending_page
   \<and> step 4 RecorderButton pending_page = pending_page
   \<and> handoversIdle [(0, Mount), (1, SocketOpened 0), (2, SetInputText (str ''first'')),
         (3, EnterKey),
         (4, SocketMessage 0 (str ''{"type":"text_response","response_text":"Hi there","detected_language":"en"}'')),
         (5, RecorderStopped clip (str ''hinglish'') (str ''guidance_counselor'')),
         (6, LoadEnd True)] (initial True)
   \<and> answered [(0, Mount), (1, SocketOpened 0), (2, SetInputText (str ''first'')),
         (3, EnterKey),
         (4, SocketMessage 0 (str ''{"type":"text_response","response_text":"Hi there","detected_language":"en"}'')),
         (5, RecorderStopped clip (str ''hinglish'') (str ''guidance_counselor'')),
         (6, LoadEnd True)] (initial True) = 1
   \<and> in_flight (run [(0, Mount), (1, SocketOpened 0), (2, SetInputText (str ''first'')),
         (3, EnterKey),
         (4, SocketMessage 0 (str ''{"type":"text_response","response_text":"Hi there","detected_language":"en"}'')),
         (5, RecorderStopped clip (str ''hinglish'') (str ''guidance_counselor'')),
         (6, LoadEnd True)] (initial True)) \<le> 2\<close>
proof -
  let ?reply = \<open>str ''{"type":"text_response","response_text":"Hi there","detected_language":"en"}''\<close>
  let ?l = "str ''hinglish''" and ?m = "str ''guidance_counselor''"
  let ?es = "[(0, Mount), (1, SocketOpened 0), (2, SetInputText (str ''first'')),
         (3, EnterKey), (4, SocketMessage 0 ?reply), (5, RecorderStopped clip ?l ?m),
         (6, LoadEnd True)]"
  let ?q = "pending_page\<lparr>messages := messages pending_page @
          [AiMessage 4 (Some (JString (str ''Hi there''))) (Some (JString (str ''en''))) None None],
        isProcessing := False\<rparr>"
  have p: "isProcessing pending_page" by (rule pending_page_fields)
  have 1: "step 1 (SocketOpened 0) (step 0 Mount (initial True)) = open_page"
    by (simp only: open_page_def run.simps)
  have 2: "step 3 EnterKey (step 2 (SetInputText (str ''first'')) open_page) = pending_page"
    by (simp only: pending_page_def run.simps)
  have 3: "step 4 (SocketMessage 0 ?reply) pending_page = ?q"
    by (simp add: pending_page_fields hi_there_reply catch_def setState_def)
  have 4: "answers 4 (SocketMessage 0 ?reply) pending_page"
    by (simp add: pending_page_fields hi_there_reply)
  have 5: "\<not> isProcessing ?q" "lifecycle ?q = Mounted" by (simp_all add: pending_page_fields)
  have h: "handoversIdle ?es (initial True)"
    unfolding handoversIdle.simps 1 2 3 using 5 by simp
  have n: "answered ?es (initial True) = 1"
    unfolding answered.simps 1 2 3 using 4 by simp
  have "in_flight (run ?es (initial True)) \<le> Suc (answered ?es (initial True))"
    using h single_flight_when_handed_over_idle [of pending_page 4 ?es True] by blast
  then have b: "in_flight (run ?es (initial True)) \<le> 2" unfolding n by simp
  have g: "step 4 EnterKey pending_page = pending_page"
    "step 4 SendButton pending_page = pending_page"
    "step 4 RecorderButton pending_page = pending_page"
    using p single_flight_when_handed_over_idle [of pending_page 4 ?es True] by blast+
  show ?thesis using p g h n b by (simp del: step.simps run.simps handoversIdle.simps answered.simps)
qed

section \<open>The page component: the connection\<close>

text \<open>
  A transport drop while the component is mounted: the status becomes
  \<open>disconnected\<close> and one timer of 3000 ms is scheduled; when it fires,
  \<open>connectWebSocket\<close> constructs the next socket and the status is
  \<open>connecting\<close>.
\<close>

lemma transport_drop_reconnects:
  assumes "lifecycle s = Mounted" "i < length (sockets s)" "sockets s ! i \<noteq> CLOSED"
  shows "step n (SocketClosed i) s =
           s\<lparr>sockets := (sockets s)[i := CLOSED], connectionStatus := disconnected,
             timers := timers s @ [3000]\<rparr>"
    and "timers s = [] \<Longrightarrow> wsUrlValid s \<Longrightarrow>
         step n' TimerFired (step n (SocketClosed i) s) =
           s\<lparr>sockets := (sockets s)[i := CLOSED] @ [CONNECTING],
             connectionStatus := connecting, timers := [],
             socketRef := Some (length (sockets s))\<rparr>"
  using assms by (simp_all add: onclose_def setState_def connectWebSocket_def)

text \<open>
  C3, the code against the claim. The claim: a close asked for by the client suppresses
  the reconnection. The code: the only \<^verbatim>\<open>close()\<close> of the client is the one in
  the cleanup of the effect, run when the component unmounts. It leaves \<open>onclose\<close>
  attached and clears no timer, so the close event of the socket it closed schedules the
  timer of 3000 ms, and when the timer fires \<open>connectWebSocket\<close> constructs a new
  socket, after the component is gone; when that socket closes the timer is scheduled
  again.
\<close>

theorem close_by_cleanup_reconnects:
  "socketRef open_page = Some 0
   \<and> lifecycle (step 2 Unmount open_page) = Unmounted
   \<and> sockets (step 2 Unmount open_page) = [CLOSING]
   \<and> timers (step 2 Unmount open_page) = []
   \<and> timers (run [(2, Unmount), (3, SocketClosed 0)] open_page) = [3000]
   \<and> sockets (run [(2, Unmount), (3, SocketClosed 0), (4, TimerFired)] open_page)
       = [CLOSED, CONNECTING]
   \<and> socketRef (run [(2, Unmount), (3, SocketClosed 0), (4, TimerFired)] open_page) = Some 1
   \<and> timers (run [(2, Unmount), (3, SocketClosed 0), (4, TimerFired), (5, SocketClosed 1)]
         open_page) = [3000]"
  by (simp add: open_page_eq cleanup_def close_def onclose_def connectWebSocket_def
      setState_def)

section \<open>The page component: messages that do not parse\<close>

lemma setState_same: "setState s s = s"
  by (simp add: setState_def)

lemma JSON_parse_error: "JSON_parse data = Inl e \<Longrightarrow> e = SyntaxError"
  by (auto simp: JSON_parse_def split: presult.splits if_splits)

lemma truncated_payload:
  \<open>JSON_parse (str ''{"type":"text_resp'') = Inl SyntaxError\<close>
  by code_simp

text \<open>
  C5, as stated, fails: on a truncated payload \<open>JSON.parse\<close> throws a SyntaxError
  that \<open>handleSocketMessage\<close> does not catch; no error message is rendered and the
  processing flag stays set. On the payload \<open>null\<close> reading \<open>message.type\<close>
  throws a TypeError.
\<close>

theorem malformed_payload_counterexample:
  \<open>JSON_parse (str ''{"type":"text_resp'') = Inl SyntaxError
   \<and> handleSocketMessage 5 pending_page (str ''{"type":"text_resp'') = Inl SyntaxError
   \<and> step 5 (SocketMessage 0 (str ''{"type":"text_resp'')) pending_page = pending_page
   \<and> isProcessing pending_page
   \<and> \<not> (\<exists>n v. ErrorMessage n v \<in> set (messages
          (step 5 (SocketMessage 0 (str ''{"type":"text_resp'')) pending_page)))
   \<and> handleSocketMessage 5 pending_page (str ''null'') = Inl TypeError\<close>
proof -
  have 1: \<open>handleSocketMessage 5 pending_page (str ''{"type":"text_resp'') = Inl SyntaxError\<close>
    by (simp add: handleSocketMessage_def truncated_payload)
  have 2: "JSON_parse (str ''null'') = Inr JNull" by code_simp
  have 3: "handleSocketMessage 5 pending_page (str ''null'') = Inl TypeError"
    by (simp add: handleSocketMessage_def 2)
  show ?thesis
    by (simp add: 1 3 truncated_payload pending_page_fields catch_def setState_same)
qed

text \<open>
  C5, amended. For every payload that \<open>JSON.parse\<close> rejects,
  \<open>handleSocketMessage\<close> throws the SyntaxError to its caller: the state of the
  component is as before the message, with no message appended and the processing flag
  unchanged.
\<close>

theorem handleSocketMessage_throws_on_malformed:
  "JSON_parse data = Inl e \<Longrightarrow>
   e = SyntaxError \<and> handleSocketMessage now s data = Inl SyntaxError
   \<and> step now (SocketMessage i data) s = s"
proof -
  assume a: "JSON_parse data = Inl e"
  then have e: "e = SyntaxError" by (rule JSON_parse_error)
  then have "handleSocketMessage now s data = Inl SyntaxError"
    using a by (simp add: handleSocketMessage_def)
  then show ?thesis using e by (simp add: catch_def setState_same)
qed

theorem handleSocketMessage_throws_on_malformed_witness:
  \<open>JSON_parse (str ''{"type":"text_resp'') = Inl SyntaxError
   \<and> handleSocketMessage 5 pending_page (str ''{"type":"text_resp'') = Inl SyntaxError
   \<and> step 5 (SocketMessage 0 (str ''{"type":"text_resp'')) pending_page = pending_page\<close>
  using handleSocketMessage_throws_on_malformed [OF truncated_payload, of 5 pending_page 0]
    truncated_payload
  by simp

section \<open>The codec round trip\<close>

lemma split_no_separator: "sep \<notin> set xs \<Longrightarrow> split sep xs = [xs]"
  by (induction xs) auto

lemma split_at_separator:
  "sep \<notin> set xs \<Longrightarrow> split sep (xs @ sep # ys) = xs # split sep ys"
  by (induction xs) auto

lemma base64Alphabet_no_comma: "44 \<notin> set base64Alphabet"
  by (simp add: base64Alphabet_def str_def)

lemma length_base64Alphabet: "length base64Alphabet = 64"
  by (simp add: base64Alphabet_def str_def)

lemma base64Digit_no_comma: "base64Digit i \<noteq> 44"
proof -
  have "i mod 64 < length base64Alphabet" by (simp add: length_base64Alphabet)
  then have "base64Alphabet ! (i mod 64) \<in> set base64Alphabet" by (rule nth_mem)
  then show ?thesis using base64Alphabet_no_comma by (auto simp: base64Digit_def)
qed

lemma base64_no_comma: "44 \<notin> set (base64 bs)"
  by (induction bs rule: base64.induct) (simp_all add: base64Digit_no_comma)

lemma dataURL_split:
  assumes "44 \<notin> set (b_type b)"
  shows "split 44 (dataURL b) = [str ''data:'' @ b_type b @ str '';base64'', base64 (b_bytes b)]"
proof -
  have p: "44 \<notin> set (str ''data:'' @ b_type b @ str '';base64'')"
    using assms by (simp add: str_def)
  have "dataURL b = (str ''data:'' @ b_type b @ str '';base64'') @ 44 # base64 (b_bytes b)"
    by (simp add: dataURL_def str_def)
  then show ?thesis
    using split_at_separator [OF p, of "base64 (b_bytes b)"]
      split_no_separator [OF base64_no_comma, of "b_bytes b"]
    by simp
qed

lemma base64Audio:
  "44 \<notin> set (b_type b) \<Longrightarrow>
   at_index (split 44 (dataURL b)) (Suc 0) = Some (base64 (b_bytes b))"
  by (simp add: dataURL_split)






section \<open>The VoiceRecorder component: stopping a session\<close>













text \<open>
  Through the button: a click on the idle component calls \<open>startRecording\<close>, and a
  click while recording is \<open>stopRecording\<close>.
\<close>

lemma click_while_recording:
  "phase s = Mounted \<Longrightarrow> \<not> disabled s \<Longrightarrow> hasPermission s = Some True \<Longrightarrow> isRecording s \<Longrightarrow>
   vstep caps Click s = stopRecording s"
  by simp





end
